theory Spec2Isabelle
  imports Main
begin

section \<open>Session registry and query executor of \<open>src/services/claude-code.ts\<close>\<close>

text \<open>
  The service keeps a JavaScript \<open>Map\<close> from session ids to session objects. Session
  objects and their \<open>AbortController\<close>s are heap objects that are shared by reference
  between the registry, the running query and the callers, so the model keeps an explicit
  store: \<open>objects\<close> holds every session object ever allocated (its address is its index)
  and \<open>controllers\<close> holds the \<open>aborted\<close> flag of every controller ever allocated.
  A \<open>new\<close> appends to the store, so a new address is never an old one.

  Time stamps are integers (milliseconds), \<open>maxTurns\<close> is an integer (the source's
  \<open>number\<close>; fractions and \<open>NaN\<close> are outside the model). Calls of the logger are left out:
  they change nothing the service reads.
\<close>

subsection \<open>JavaScript values\<close>

text \<open>
  A property of an options object is absent, present with the value \<open>undefined\<close>, or present
  with a value. The difference matters for object spread: a present key overrides, also when
  its value is \<open>undefined\<close>.
\<close>

datatype 'a js_field = Absent | Undefined | Val 'a

fun truthy_num :: "int js_field \<Rightarrow> bool" where
  "truthy_num (Val n) = (n \<noteq> 0)"
| "truthy_num _ = False"

text \<open>\<open>a || d\<close> where \<open>d\<close> is a number, respectively a string.\<close>

fun or_num :: "int js_field \<Rightarrow> int \<Rightarrow> int" where
  "or_num (Val n) d = (if n \<noteq> 0 then n else d)"
| "or_num _ d = d"

fun or_str :: "string js_field \<Rightarrow> string \<Rightarrow> string" where
  "or_str (Val s) d = (if s \<noteq> [] then s else d)"
| "or_str _ d = d"

text \<open>Reading a property: an absent key reads as \<open>undefined\<close>.\<close>

fun read_field :: "'a js_field \<Rightarrow> 'a option" where
  "read_field (Val v) = Some v"
| "read_field _ = None"

text \<open>One key of \<open>{...d, ...o}\<close>.\<close>

fun spread :: "'a js_field \<Rightarrow> 'a js_field \<Rightarrow> 'a js_field" where
  "spread d Absent = d"
| "spread d o' = o'"

text \<open>\<open>String(n)\<close> for an integer \<open>n\<close>: decimal digits, with a sign when negative.\<close>

definition digit_char :: "nat \<Rightarrow> char" where
  "digit_char d = ''0123456789'' ! (d mod 10)"

fun digits10 :: "nat \<Rightarrow> string" where
  "digits10 n = (if n < 10 then [digit_char n] else digits10 (n div 10) @ [digit_char (n mod 10)])"

declare digits10.simps [simp del]

definition Number_toString :: "int \<Rightarrow> string" where
  "Number_toString i = (if i < 0 then CHR ''-'' # digits10 (nat (- i)) else digits10 (nat i))"

text \<open>\<open>s.substring(a, b)\<close> for \<open>0 \<le> a \<le> b\<close>.\<close>

definition substring :: "nat \<Rightarrow> nat \<Rightarrow> string \<Rightarrow> string" where
  "substring a b s = take (b - a) (drop a s)"

subsection \<open>The JavaScript \<open>Map\<close>\<close>

text \<open>
  A \<open>Map\<close> iterates in insertion order; \<open>set\<close> on a key that is present replaces the value
  in place, on a new key it appends.
\<close>

fun Map_set :: "'k \<Rightarrow> 'v \<Rightarrow> ('k \<times> 'v) list \<Rightarrow> ('k \<times> 'v) list" where
  "Map_set k v [] = [(k, v)]"
| "Map_set k v ((k', v') # kvs) =
     (if k' = k then (k, v) # kvs else (k', v') # Map_set k v kvs)"

definition Map_get :: "('k \<times> 'v) list \<Rightarrow> 'k \<Rightarrow> 'v option" where
  "Map_get m k = map_of m k"

definition Map_delete :: "'k \<Rightarrow> ('k \<times> 'v) list \<Rightarrow> ('k \<times> 'v) list" where
  "Map_delete k m = filter (\<lambda>kv. fst kv \<noteq> k) m"

subsection \<open>Sessions, options and the service\<close>

datatype session_status = Idle | Running | Completed | Error

datatype sdk_message = SDKMessage (msg_type: string) (msg_content: string)

type_synonym addr = nat

record ClaudeCodeSession =
  id_s :: string
  startedAt :: int
  lastActivityAt :: int
  messages :: "sdk_message list"
  abortController :: addr
  status :: session_status
  workingDirectory :: "string option"

record QueryOptions =
  sessionId :: "string js_field"
  workingDirectory_o :: "string js_field"
  maxTurns :: "int js_field"
  systemPrompt :: "string js_field"
  allowedTools :: "string list js_field"
  disallowedTools :: "string list js_field"
  permissionMode :: "string js_field"
  outputFormat :: "string js_field"
  verbose :: "bool js_field"

text \<open>The empty options object \<open>{}\<close>.\<close>

definition no_options :: QueryOptions where
  "no_options = \<lparr>sessionId = Absent, workingDirectory_o = Absent, maxTurns = Absent,
     systemPrompt = Absent, allowedTools = Absent, disallowedTools = Absent,
     permissionMode = Absent, outputFormat = Absent, verbose = Absent\<rparr>"

text \<open>The value of the setting \<open>CLAUDE_CODE_CONFIG\<close>, as far as the constructor reads it.\<close>

record plugin_config =
  MAX_TURNS :: "int js_field"
  PERMISSION_MODE :: "string js_field"

text \<open>
  The service instance together with the part of the world it reads: the clock behind
  \<open>Date.now()\<close> and \<open>new Date()\<close> (\<open>clock s n\<close> is the \<open>n\<close>-th reading), the text of
  \<open>Math.random().toString(36)\<close> at each draw, and \<open>process.env.ANTHROPIC_API_KEY\<close>.
\<close>

record service =
  sessions :: "(string \<times> addr) list"
  defaultOptions :: QueryOptions
  objects :: "ClaudeCodeSession list"
  controllers :: "bool list"
  clock :: "nat \<Rightarrow> int"
  ticks :: nat
  random36 :: "nat \<Rightarrow> string"
  draws :: nat
  ANTHROPIC_API_KEY :: "string option"

text \<open>The constructor, lines 38-47: \<open>config = getSetting(...) || {}\<close>.\<close>

definition constructor_defaults :: "plugin_config option \<Rightarrow> QueryOptions" where
  "constructor_defaults cfg =
     (let config = (case cfg of None \<Rightarrow> \<lparr>MAX_TURNS = Absent, PERMISSION_MODE = Absent\<rparr>
                    | Some c \<Rightarrow> c)
      in no_options\<lparr>maxTurns := Val (or_num (MAX_TURNS config) 10),
                    permissionMode := Val (or_str (PERMISSION_MODE config) ''acceptEdits'')\<rparr>)"

definition ClaudeCodeService_new ::
  "plugin_config option \<Rightarrow> (nat \<Rightarrow> int) \<Rightarrow> (nat \<Rightarrow> string) \<Rightarrow> string option \<Rightarrow> service" where
  "ClaudeCodeService_new cfg clk rnd key =
     \<lparr>sessions = [], defaultOptions = constructor_defaults cfg, objects = [],
      controllers = [], clock = clk, ticks = 0, random36 = rnd, draws = 0,
      ANTHROPIC_API_KEY = key\<rparr>"


subsection \<open>Clock, random source and allocation\<close>

definition Date_now :: "service \<Rightarrow> int \<times> service" where
  "Date_now s = (clock s (ticks s), s\<lparr>ticks := Suc (ticks s)\<rparr>)"

definition Math_random_toString36 :: "service \<Rightarrow> string \<times> service" where
  "Math_random_toString36 s = (random36 s (draws s), s\<lparr>draws := Suc (draws s)\<rparr>)"

definition new_AbortController :: "service \<Rightarrow> addr \<times> service" where
  "new_AbortController s = (length (controllers s), s\<lparr>controllers := controllers s @ [False]\<rparr>)"

definition abort :: "addr \<Rightarrow> service \<Rightarrow> service" where
  "abort a s = s\<lparr>controllers := (controllers s)[a := True]\<rparr>"

definition new_object :: "ClaudeCodeSession \<Rightarrow> service \<Rightarrow> addr \<times> service" where
  "new_object x s = (length (objects s), s\<lparr>objects := objects s @ [x]\<rparr>)"

text \<open>An assignment to a field of the session object at address \<open>r\<close>.\<close>

definition update_session ::
  "addr \<Rightarrow> (ClaudeCodeSession \<Rightarrow> ClaudeCodeSession) \<Rightarrow> service \<Rightarrow> service" where
  "update_session r f s = s\<lparr>objects := (objects s)[r := f (objects s ! r)]\<rparr>"

subsection \<open>Session registry\<close>

text \<open>Lines 229-231: \<open>`claude-${Date.now()}-${Math.random().toString(36).substring(2, 9)}`\<close>.\<close>

definition make_id :: "int \<Rightarrow> string \<Rightarrow> string" where
  "make_id t r = ''claude-'' @ Number_toString t @ ''-'' @ substring 2 9 r"

definition generateSessionId :: "service \<Rightarrow> string \<times> service" where
  "generateSessionId s =
     (let (t, s1) = Date_now s;
          (r, s2) = Math_random_toString36 s1
      in (make_id t r, s2))"

text \<open>
  Lines 160-176. The result is the address of the new session object; the object itself is
  \<open>objects s' ! r\<close>.
\<close>

definition createSession :: "string option \<Rightarrow> string option \<Rightarrow> service \<Rightarrow> addr \<times> service" where
  "createSession sessionId' workingDirectory' s =
     (let (id', s1) = (case sessionId' of
                         None \<Rightarrow> generateSessionId s
                       | Some i \<Rightarrow> if i \<noteq> [] then (i, s) else generateSessionId s);
          (t1, s2) = Date_now s1;
          (t2, s3) = Date_now s2;
          (ac, s4) = new_AbortController s3;
          (r, s5) = new_object \<lparr>id_s = id', startedAt = t1, lastActivityAt = t2,
                                 messages = [], abortController = ac, status = Idle,
                                 workingDirectory = workingDirectory'\<rparr> s4
      in (r, s5\<lparr>sessions := Map_set id' r (sessions s5)\<rparr>))"

text \<open>Lines 153-155.\<close>

definition getSession :: "string \<Rightarrow> service \<Rightarrow> addr option" where
  "getSession sessionId' s = Map_get (sessions s) sessionId'"

text \<open>Lines 181-185.\<close>

definition getActiveSessions :: "service \<Rightarrow> addr list" where
  "getActiveSessions s =
     filter (\<lambda>r. status (objects s ! r) = Running \<or> status (objects s ! r) = Idle)
       (map snd (sessions s))"

text \<open>
  Lines 190-209. The function has no \<open>return\<close>: its value is \<open>undefined\<close>. The count of
  removed sessions only goes to the logger.
\<close>

datatype js_return = Returns_undefined | Returns_number nat

definition sessionsToRemove :: "int \<Rightarrow> int \<Rightarrow> service \<Rightarrow> string list" where
  "sessionsToRemove maxAge now s =
     map fst (filter (\<lambda>(id', r). now - lastActivityAt (objects s ! r) > maxAge
                                 \<and> status (objects s ! r) \<noteq> Running) (sessions s))"

definition cleanupSessions :: "int option \<Rightarrow> service \<Rightarrow> js_return \<times> service" where
  "cleanupSessions maxAge' s =
     (let maxAge = (case maxAge' of None \<Rightarrow> 3600000 | Some a \<Rightarrow> a);
          (now, s1) = Date_now s;
          toRemove = sessionsToRemove maxAge now s1
      in (Returns_undefined, s1\<lparr>sessions := fold Map_delete toRemove (sessions s1)\<rparr>))"

text \<open>Lines 71-84.\<close>

definition stop :: "service \<Rightarrow> service" where
  "stop s =
     (fold (\<lambda>(sessionId', r) s'. if status (objects s' ! r) = Running
                                  then abort (abortController (objects s' ! r)) s' else s')
        (sessions s) s)\<lparr>sessions := []\<rparr>"

subsection \<open>Status reporter\<close>



subsection \<open>Query executor\<close>

text \<open>
  What \<open>executeQuery\<close> hands to the external call \<open>query\<close> (lines 121-127): the prompt,
  the session's controller and an options object that holds \<open>maxTurns\<close> only.
\<close>

record query_args =
  prompt :: string
  abortController_q :: addr
  maxTurns_q :: int

text \<open>The object \<open>queryOptions\<close> of lines 107-112.\<close>

record merged_options = QueryOptions +
  abortController_m :: addr
  cwd :: "string option"

definition merge_options ::
  "QueryOptions \<Rightarrow> QueryOptions \<Rightarrow> addr \<Rightarrow> string option \<Rightarrow> merged_options" where
  "merge_options d opts ac wd =
     \<lparr>sessionId = spread (sessionId d) (sessionId opts),
      workingDirectory_o = spread (workingDirectory_o d) (workingDirectory_o opts),
      maxTurns = spread (maxTurns d) (maxTurns opts),
      systemPrompt = spread (systemPrompt d) (systemPrompt opts),
      allowedTools = spread (allowedTools d) (allowedTools opts),
      disallowedTools = spread (disallowedTools d) (disallowedTools opts),
      permissionMode = spread (permissionMode d) (permissionMode opts),
      outputFormat = spread (outputFormat d) (outputFormat opts),
      verbose = spread (verbose d) (verbose opts),
      abortController_m = ac, cwd = wd\<rparr>"

text \<open>
  \<open>executeQuery\<close> suspends at the external call and at every message of the stream, so it
  is modelled in the pieces that run without suspension. Lines 90-127, up to the call of
  \<open>query\<close>: the result is the session id, the address of the session object and the
  arguments of the external call. Line 90 is \<open>options.sessionId || this.generateSessionId()\<close>.
\<close>

definition queryOptions_of :: "QueryOptions \<Rightarrow> addr \<Rightarrow> service \<Rightarrow> merged_options" where
  "queryOptions_of options r s =
     merge_options (defaultOptions s) options
       (abortController (objects s ! r)) (workingDirectory (objects s ! r))"

definition resolve_sessionId :: "QueryOptions \<Rightarrow> service \<Rightarrow> string \<times> service" where
  "resolve_sessionId options s =
     (case sessionId options of
        Val i \<Rightarrow> if i \<noteq> [] then (i, s) else generateSessionId s
      | _ \<Rightarrow> generateSessionId s)"

text \<open>Lines 91-97: the session registered under the id, or a new one.\<close>

definition get_or_create :: "string \<Rightarrow> QueryOptions \<Rightarrow> service \<Rightarrow> addr \<times> service" where
  "get_or_create sessionId' options s =
     (case Map_get (sessions s) sessionId' of
        Some r \<Rightarrow> (r, s)
      | None \<Rightarrow>
          (let (r, s') = createSession (Some sessionId')
                           (read_field (workingDirectory_o options)) s
           in (r, s'\<lparr>sessions := Map_set sessionId' r (sessions s')\<rparr>)))"

text \<open>Lines 100-101: \<open>session.status = 'running'; session.lastActivityAt = new Date()\<close>.\<close>

definition mark_running :: "addr \<Rightarrow> service \<Rightarrow> service" where
  "mark_running r s =
     (let s3 = update_session r (\<lambda>x. x\<lparr>status := Running\<rparr>) s;
          (now, s4) = Date_now s3
      in update_session r (\<lambda>x. x\<lparr>lastActivityAt := now\<rparr>) s4)"

definition executeQuery_begin ::
  "string \<Rightarrow> QueryOptions \<Rightarrow> service \<Rightarrow> (string \<times> addr \<times> query_args) \<times> service" where
  "executeQuery_begin prompt' options s =
     (let (sessionId', s1) = resolve_sessionId options s;
          (r, s2) = get_or_create sessionId' options s1;
          s5 = mark_running r s2;
          queryOptions = queryOptions_of options r s5
      in ((sessionId', r,
           \<lparr>prompt = prompt', abortController_q = abortController_m queryOptions,
            maxTurns_q = or_num (maxTurns queryOptions) 10\<rparr>), s5))"

text \<open>The loop body, lines 128-129: the message goes to the local list and to the session.\<close>

definition push_message :: "addr \<Rightarrow> sdk_message \<Rightarrow> service \<Rightarrow> service" where
  "push_message r m s = update_session r (\<lambda>x. x\<lparr>messages := messages x @ [m]\<rparr>) s"

fun for_await ::
  "addr \<Rightarrow> sdk_message list \<Rightarrow> sdk_message list \<times> service \<Rightarrow> sdk_message list \<times> service" where
  "for_await r [] (acc, s) = (acc, s)"
| "for_await r (m # ms) (acc, s) = for_await r ms (acc @ [m], push_message r m s)"

text \<open>Line 137 and line 144.\<close>

definition executeQuery_completed :: "addr \<Rightarrow> service \<Rightarrow> service" where
  "executeQuery_completed r s = update_session r (\<lambda>x. x\<lparr>status := Completed\<rparr>) s"

definition executeQuery_failed :: "addr \<Rightarrow> service \<Rightarrow> service" where
  "executeQuery_failed r s = update_session r (\<lambda>x. x\<lparr>status := Error\<rparr>) s"

text \<open>
  A whole call that nothing interleaves with. The external call is a parameter: for its
  arguments it gives the messages it emits and, when it throws or rejects after them, the
  error. The result of \<open>executeQuery\<close> is \<open>Inr\<close> of the returned list or \<open>Inl\<close> of the error
  thrown to the caller.
\<close>

definition executeQuery ::
  "(query_args \<Rightarrow> sdk_message list \<times> 'e option) \<Rightarrow> string \<Rightarrow> QueryOptions \<Rightarrow> service
     \<Rightarrow> ('e + sdk_message list) \<times> service" where
  "executeQuery query prompt' options s =
     (let ((sessionId', r, args), s1) = executeQuery_begin prompt' options s;
          (emitted, failure) = query args;
          (messages', s2) = for_await r emitted ([], s1)
      in case failure of
           None \<Rightarrow> (Inr messages', executeQuery_completed r s2)
         | Some e \<Rightarrow> (Inl e, executeQuery_failed r s2))"

text \<open>
  The steps of the service as they can interleave: a call of \<open>createSession\<close>,
  \<open>cleanupSessions\<close> or \<open>stop\<close>, the start of an \<open>executeQuery\<close>, and for a query in
  flight, which holds the address of its session object, a message, the normal end or
  the failure.
\<close>

inductive step :: "service \<Rightarrow> service \<Rightarrow> bool" where
  step_create: "step s (snd (createSession i wd s))"
| step_cleanup: "step s (snd (cleanupSessions a s))"
| step_stop: "step s (stop s)"
| step_begin: "step s (snd (executeQuery_begin p opts s))"
| step_message: "r < length (objects s) \<Longrightarrow> step s (push_message r m s)"
| step_completed: "r < length (objects s) \<Longrightarrow> step s (executeQuery_completed r s)"
| step_failed: "r < length (objects s) \<Longrightarrow> step s (executeQuery_failed r s)"

inductive reachable :: "service \<Rightarrow> bool" where
  reachable_new: "reachable (ClaudeCodeService_new cfg clk rnd key)"
| reachable_step: "reachable s \<Longrightarrow> step s s' \<Longrightarrow> reachable s'"

text \<open>Every registered address is the address of an allocated session object.\<close>

definition registry_ok :: "service \<Rightarrow> bool" where
  "registry_ok s = (\<forall>r \<in> snd ` set (sessions s). r < length (objects s))"

subsection \<open>Invariants of the store\<close>

text \<open>The keys of a \<open>Map\<close> are distinct.\<close>

definition keys_distinct :: "service \<Rightarrow> bool" where
  "keys_distinct s = distinct (map fst (sessions s))"

text \<open>The cancellation handle of the session object at \<open>r\<close> exists and has fired.\<close>

definition fired :: "service \<Rightarrow> addr \<Rightarrow> bool" where
  "fired s r = (r < length (objects s)
     \<and> abortController (objects s ! r) < length (controllers s)
     \<and> controllers s ! abortController (objects s ! r))"

text \<open>Every registered session is allocated and its handle exists and has not fired.\<close>

definition handles_unfired :: "service \<Rightarrow> bool" where
  "handles_unfired s =
     (\<forall>r \<in> snd ` set (sessions s). r < length (objects s)
        \<and> abortController (objects s ! r) < length (controllers s)
        \<and> \<not> controllers s ! abortController (objects s ! r))"

text \<open>
  What a generated id is made of: the clock reading and the seven characters that are
  kept of the random number's text.
\<close>

definition id_source :: "service \<Rightarrow> int \<times> string" where
  "id_source s = (clock s (ticks s), substring 2 9 (random36 s (draws s)))"

subsection \<open>Scenarios\<close>

text \<open>A new service, with a clock that advances and a random source.\<close>

definition example_service :: service where
  "example_service = ClaudeCodeService_new None (\<lambda>n. 1700000000000 + int n)
     (\<lambda>n. ''0.4fzyo82mvyr'') (Some ''sk-ant-test'')"

definition two_messages :: "sdk_message list" where
  "two_messages = [SDKMessage ''assistant'' ''Creating README.md'', SDKMessage ''assistant'' ''Done'']"

text \<open>
  The stale cleanup of the specification: two idle sessions and a running one, all last
  active two hours before the clock's reading.
\<close>

definition stale_service :: service where
  "stale_service =
     \<lparr>sessions = [(''a'', 0), (''b'', 1), (''c'', 2)],
      defaultOptions = constructor_defaults None,
      objects =
        [\<lparr>id_s = ''a'', startedAt = 1700000000000, lastActivityAt = 1700000000000,
          messages = [], abortController = 0, status = Idle, workingDirectory = None\<rparr>,
         \<lparr>id_s = ''b'', startedAt = 1700000000000, lastActivityAt = 1700000000000,
          messages = [], abortController = 1, status = Running, workingDirectory = None\<rparr>,
         \<lparr>id_s = ''c'', startedAt = 1700000000000, lastActivityAt = 1700000000000,
          messages = [], abortController = 2, status = Idle, workingDirectory = None\<rparr>],
      controllers = [False, False, False],
      clock = (\<lambda>n. 1700007200000), ticks = 0,
      random36 = (\<lambda>n. ''0.4fzyo82mvyr''), draws = 0,
      ANTHROPIC_API_KEY = Some ''sk-ant-test''\<rparr>"

text \<open>
  Two calls within one millisecond whose random numbers differ after the seventh digit.
\<close>

definition same_ms_service :: service where
  "same_ms_service = ClaudeCodeService_new None (\<lambda>n. 1700000000000)
     (\<lambda>n. if n = 0 then ''0.4fzyo82mvyr'' else ''0.4fzyo82k1qd'') (Some ''sk-ant-test'')"

definition created_once :: "addr \<times> service" where
  "created_once = createSession None None same_ms_service"

definition created_twice :: "addr \<times> service" where
  "created_twice = createSession None None (snd created_once)"

text \<open>A service with \<open>MAX_TURNS = 7\<close> and \<open>PERMISSION_MODE = default\<close> in its setting.\<close>

definition configured_service :: service where
  "configured_service =
     ClaudeCodeService_new (Some \<lparr>MAX_TURNS = Val 7, PERMISSION_MODE = Val ''default''\<rparr>)
       (\<lambda>n. 1700000000000 + int n) (\<lambda>n. ''0.4fzyo82mvyr'') (Some ''sk-ant-test'')"

text \<open>A query is started in session \<open>session-1\<close>; while it is in flight the service stops.\<close>

definition session_1 :: QueryOptions where
  "session_1 = no_options\<lparr>sessionId := Val ''session-1''\<rparr>"

definition in_flight_service :: service where
  "in_flight_service = snd (executeQuery_begin ''add a README'' session_1 example_service)"

definition stopped_service :: service where
  "stopped_service = stop in_flight_service"

text \<open>
  The query in flight emits one message; then the service stops, which cancels the query,
  and the query ends on its error path.
\<close>

definition emitted_service :: service where
  "emitted_service = push_message 0 (SDKMessage ''assistant'' ''Working'') in_flight_service"

definition cancelled_service :: service where
  "cancelled_service = executeQuery_failed 0 (stop emitted_service)"

text \<open>
  Options that set the permission mode, the system prompt, the allowed tools and the
  working directory.
\<close>

definition plan_options :: QueryOptions where
  "plan_options = no_options\<lparr>permissionMode := Val ''plan'', systemPrompt := Val ''Be brief'',
     allowedTools := Val [''Read''], workingDirectory_o := Val ''/repo''\<rparr>"

section \<open>Basic facts\<close>

lemma Map_get_Map_set: "Map_get (Map_set k v m) k' = (if k' = k then Some v else Map_get m k')"
  by (induction m) (auto simp: Map_get_def)

lemma set_Map_set:
  "(k', r) \<in> set (Map_set k v m) \<Longrightarrow> (k', r) = (k, v) \<or> (k', r) \<in> set m"
  by (induction m) (auto split: if_splits)

lemma Map_get_in: "Map_get m k = Some r \<Longrightarrow> r \<in> snd ` set m"
  by (auto simp: Map_get_def dest!: map_of_SomeD intro: rev_image_eqI)

lemma generateSessionId_fields:
  "sessions (snd (generateSessionId s)) = sessions s"
  "objects (snd (generateSessionId s)) = objects s"
  "controllers (snd (generateSessionId s)) = controllers s"
  "defaultOptions (snd (generateSessionId s)) = defaultOptions s"
  by (simp_all add: generateSessionId_def Date_now_def Math_random_toString36_def)

lemma make_id_nonempty: "make_id t r \<noteq> []"
  by (simp add: make_id_def)

lemma generateSessionId_nonempty: "fst (generateSessionId s) \<noteq> []"
  by (simp add: generateSessionId_def Date_now_def Math_random_toString36_def make_id_nonempty)

lemma resolve_sessionId_fields:
  "sessions (snd (resolve_sessionId opts s)) = sessions s"
  "objects (snd (resolve_sessionId opts s)) = objects s"
  "controllers (snd (resolve_sessionId opts s)) = controllers s"
  "defaultOptions (snd (resolve_sessionId opts s)) = defaultOptions s"
  "fst (resolve_sessionId opts s) \<noteq> []"
  by (auto simp: resolve_sessionId_def generateSessionId_fields generateSessionId_nonempty
        split: js_field.splits)

text \<open>\<open>createSession\<close> with an id that is given and not empty, in one piece.\<close>

lemma createSession_Some:
  "i \<noteq> [] \<Longrightarrow> createSession (Some i) wd s =
    (length (objects s),
     s\<lparr>ticks := Suc (Suc (ticks s)), controllers := controllers s @ [False],
       objects := objects s @ [\<lparr>id_s = i, startedAt = clock s (ticks s),
           lastActivityAt = clock s (Suc (ticks s)), messages = [],
           abortController = length (controllers s), status = Idle, workingDirectory = wd\<rparr>],
       sessions := Map_set i (length (objects s)) (sessions s)\<rparr>)"
  by (simp add: createSession_def Date_now_def new_AbortController_def new_object_def)

lemma update_session_fields:
  "sessions (update_session r f s) = sessions s"
  "length (objects (update_session r f s)) = length (objects s)"
  "controllers (update_session r f s) = controllers s"
  "r < length (objects s) \<Longrightarrow> objects (update_session r f s) ! r = f (objects s ! r)"
  "r' \<noteq> r \<Longrightarrow> objects (update_session r f s) ! r' = objects s ! r'"
  by (simp_all add: update_session_def)

text \<open>
  The session that \<open>executeQuery\<close> resolves: it is allocated, registered under the id,
  running, and its transcript is the one it had before (empty when it is new).
\<close>

lemma begin_facts:
  assumes "registry_ok s" and "executeQuery_begin p opts s = ((sid, r, args), s1)"
  shows "r < length (objects s1) \<and> Map_get (sessions s1) sid = Some r
     \<and> status (objects s1 ! r) = Running
     \<and> messages (objects s1 ! r)
         = (case Map_get (sessions s) sid of None \<Rightarrow> [] | Some r0 \<Rightarrow> messages (objects s ! r0))"
proof -
  obtain i s0 where r: "resolve_sessionId opts s = (i, s0)"
    by (cases "resolve_sessionId opts s")
  have f: "sessions s0 = sessions s" "objects s0 = objects s" "i \<noteq> []"
    using resolve_sessionId_fields[of opts s] r by simp_all
  show ?thesis
  proof (cases "Map_get (sessions s) i")
    case None
    then show ?thesis using assms(2) r f
      by (auto simp: executeQuery_begin_def get_or_create_def mark_running_def
            createSession_Some Let_def update_session_def Date_now_def Map_get_Map_set
            nth_append)
  next
    case (Some r0)
    then have "r0 < length (objects s)"
      using assms(1) Map_get_in[OF Some] by (auto simp: registry_ok_def)
    then show ?thesis using assms(2) r f Some
      by (auto simp: executeQuery_begin_def get_or_create_def mark_running_def Let_def
            update_session_def Date_now_def Map_get_Map_set nth_append)
  qed
qed

lemma for_await_fst: "fst (for_await r ms (acc, s)) = acc @ ms"
  by (induction ms arbitrary: acc s) auto

lemma push_message_fields:
  "sessions (push_message r m s) = sessions s"
  "length (objects (push_message r m s)) = length (objects s)"
  "r < length (objects s) \<Longrightarrow>
     messages (objects (push_message r m s) ! r) = messages (objects s ! r) @ [m]"
  by (simp_all add: push_message_def update_session_def)

lemma for_await_snd:
  "sessions (snd (for_await r ms (acc, s))) = sessions s
   \<and> length (objects (snd (for_await r ms (acc, s)))) = length (objects s)
   \<and> (r < length (objects s) \<longrightarrow>
        messages (objects (snd (for_await r ms (acc, s))) ! r) = messages (objects s ! r) @ ms)"
  by (induction ms arbitrary: acc s) (auto simp: push_message_fields)

lemma createSession_defaultOptions:
  "defaultOptions (snd (createSession i wd s)) = defaultOptions s"
  by (simp add: createSession_def Date_now_def new_AbortController_def new_object_def
        generateSessionId_def Math_random_toString36_def split: option.splits)

lemma begin_defaultOptions:
  "defaultOptions (snd (executeQuery_begin p opts s)) = defaultOptions s"
proof -
  obtain i s0 where r: "resolve_sessionId opts s = (i, s0)"
    by (cases "resolve_sessionId opts s")
  have f: "defaultOptions s0 = defaultOptions s" "i \<noteq> []"
    using resolve_sessionId_fields(4,5)[of opts s] r by simp_all
  show ?thesis using r f
    by (simp add: executeQuery_begin_def get_or_create_def mark_running_def Let_def
          update_session_def Date_now_def createSession_Some split: option.splits)
qed

lemma begin_args:
  "executeQuery_begin p opts s = ((sid, r, args), s1) \<Longrightarrow>
     args = \<lparr>prompt = p, abortController_q = abortController_m (queryOptions_of opts r s1),
             maxTurns_q = or_num (maxTurns (queryOptions_of opts r s1)) 10\<rparr>"
  by (auto simp: executeQuery_begin_def Let_def split: prod.splits)

text \<open>The \<open>maxTurns\<close> of the external call: the merged value, or 10 when that is falsy.\<close>

lemma begin_maxTurns:
  "maxTurns_q (snd (snd (fst (executeQuery_begin p opts s))))
     = or_num (spread (maxTurns (defaultOptions s)) (maxTurns opts)) 10"
proof -
  let ?B = "executeQuery_begin p opts s"
  have "?B = ((fst (fst ?B), fst (snd (fst ?B)), snd (snd (fst ?B))), snd ?B)" by simp
  from begin_args[OF this] show ?thesis
    using begin_defaultOptions[of p opts s]
    by (simp add: queryOptions_of_def merge_options_def)
qed

lemma spread_if: "spread d f = (if f = Absent then d else f)"
  by (cases f) simp_all

lemma begin_workingDirectory:
  assumes "registry_ok s" and "executeQuery_begin p opts s = ((sid, r, args), s1)"
  shows "workingDirectory (objects s1 ! r)
     = (case Map_get (sessions s) sid of None \<Rightarrow> read_field (workingDirectory_o opts)
        | Some r0 \<Rightarrow> workingDirectory (objects s ! r0))"
proof -
  obtain i s0 where r: "resolve_sessionId opts s = (i, s0)"
    by (cases "resolve_sessionId opts s")
  have f: "sessions s0 = sessions s" "objects s0 = objects s" "i \<noteq> []"
    using resolve_sessionId_fields[of opts s] r by simp_all
  show ?thesis
  proof (cases "Map_get (sessions s) i")
    case None
    then show ?thesis using assms(2) r f
      by (auto simp: executeQuery_begin_def get_or_create_def mark_running_def
            createSession_Some Let_def update_session_def Date_now_def Map_get_Map_set
            nth_append)
  next
    case (Some r0)
    then have "r0 < length (objects s)"
      using assms(1) Map_get_in[OF Some] by (auto simp: registry_ok_def)
    then show ?thesis using assms(2) r f Some
      by (auto simp: executeQuery_begin_def get_or_create_def mark_running_def Let_def
            update_session_def Date_now_def Map_get_Map_set nth_append)
  qed
qed


lemma example_service_registry_ok: "registry_ok example_service"
  by (simp add: registry_ok_def example_service_def ClaudeCodeService_new_def)

lemmas run_defs = executeQuery_begin_def get_or_create_def mark_running_def
  queryOptions_of_def resolve_sessionId_def no_options_def example_service_def
  ClaudeCodeService_new_def generateSessionId_def Date_now_def Math_random_toString36_def
  Map_get_def createSession_def make_id_def new_AbortController_def new_object_def Let_def

lemmas run_defs2 = run_defs configured_service_def update_session_def merge_options_def

section \<open>The query executor\<close>

text \<open>
  Claim C1. When the external call emits the messages \<open>msgs\<close> and ends without an error,
  \<open>executeQuery\<close> returns exactly \<open>msgs\<close>, in order, and not the older transcript. The
  session of the call, which \<open>getSession\<close> finds under the call's session id, has the
  transcript it had before the call (none for a new session) followed by \<open>msgs\<close>, and its
  status is \<open>completed\<close>.
\<close>

theorem executeQuery_returns_emitted:
  assumes "registry_ok s"
    and "executeQuery_begin p opts s = ((sid, r, args), s1)"
    and "query args = (msgs, None)"
    and "executeQuery query p opts s = (res, s')"
  shows "res = Inr msgs
     \<and> getSession sid s' = Some r
     \<and> messages (objects s' ! r)
         = (case getSession sid s of None \<Rightarrow> [] | Some r0 \<Rightarrow> messages (objects s ! r0)) @ msgs
     \<and> status (objects s' ! r) = Completed"
proof -
  obtain acc s2 where fa: "for_await r msgs ([], s1) = (acc, s2)"
    by (cases "for_await r msgs ([], s1)")
  have acc: "acc = msgs" using for_await_fst[of r msgs "[]" s1] fa by simp
  have s2: "sessions s2 = sessions s1" "length (objects s2) = length (objects s1)"
    "r < length (objects s1) \<longrightarrow> messages (objects s2 ! r) = messages (objects s1 ! r) @ msgs"
    using for_await_snd[of r msgs "[]" s1] fa by simp_all
  have res: "res = Inr acc" and s': "s' = executeQuery_completed r s2"
    using assms(2,3,4) fa by (simp_all add: executeQuery_def)
  note b = begin_facts[OF assms(1,2)]
  show ?thesis using acc s2 res s' b
    by (simp add: executeQuery_completed_def update_session_fields getSession_def)
qed

text \<open>
  The happy path of the specification: no session id, two assistant messages. The call
  returns the two messages and the new session, at address 0, holds them and is completed.
\<close>

theorem executeQuery_returns_emitted_witness:
  "registry_ok example_service
   \<and> fst (executeQuery (\<lambda>a. (two_messages, None :: string option)) ''add a README'' no_options
          example_service) = Inr two_messages
   \<and> messages (objects (snd (executeQuery (\<lambda>a. (two_messages, None :: string option))
          ''add a README'' no_options example_service)) ! 0) = two_messages
   \<and> status (objects (snd (executeQuery (\<lambda>a. (two_messages, None :: string option))
          ''add a README'' no_options example_service)) ! 0) = Completed"
proof -
  let ?B = "executeQuery_begin ''add a README'' no_options example_service"
  let ?q = "\<lambda>a::query_args. (two_messages, None :: string option)"
  let ?E = "executeQuery ?q ''add a README'' no_options example_service"
  have h2: "?B = ((fst (fst ?B), fst (snd (fst ?B)), snd (snd (fst ?B))), snd ?B)" by simp
  have h3: "?q (snd (snd (fst ?B))) = (two_messages, None)" by simp
  have h4: "?E = (fst ?E, snd ?E)" by simp
  have r: "fst (snd (fst ?B)) = 0"
    by (simp add: run_defs)
  have g: "getSession (fst (fst ?B)) example_service = None"
    by (simp add: getSession_def Map_get_def example_service_def ClaudeCodeService_new_def)
  show ?thesis
    using executeQuery_returns_emitted [OF example_service_registry_ok h2 h3 h4]
      example_service_registry_ok r g by simp
qed

text \<open>
  A whole call whose external call throws or rejects with \<open>e\<close> after the messages \<open>msgs\<close>,
  with nothing interleaved.
\<close>

lemma executeQuery_failure_run:
  assumes "registry_ok s"
    and "executeQuery_begin p opts s = ((sid, r, args), s1)"
    and "query args = (msgs, Some e)"
    and "executeQuery query p opts s = (res, s')"
  shows "res = Inl e
     \<and> getSession sid s' = Some r
     \<and> messages (objects s' ! r)
         = (case getSession sid s of None \<Rightarrow> [] | Some r0 \<Rightarrow> messages (objects s ! r0)) @ msgs
     \<and> status (objects s' ! r) = Error"
proof -
  obtain acc s2 where fa: "for_await r msgs ([], s1) = (acc, s2)"
    by (cases "for_await r msgs ([], s1)")
  have s2: "sessions s2 = sessions s1" "length (objects s2) = length (objects s1)"
    "r < length (objects s1) \<longrightarrow> messages (objects s2 ! r) = messages (objects s1 ! r) @ msgs"
    using for_await_snd[of r msgs "[]" s1] fa by simp_all
  have res: "res = Inl e" and s': "s' = executeQuery_failed r s2"
    using assms(2,3,4) fa by (simp_all add: executeQuery_def)
  note b = begin_facts[OF assms(1,2)]
  show ?thesis using s2 res s' b
    by (simp add: executeQuery_failed_def update_session_fields getSession_def)
qed

text \<open>
  What \<open>executeQuery\<close> builds and what it hands on. The object \<open>queryOptions\<close> is merged
  field by field: a key that is present in \<open>options\<close> overrides the service default, and
  \<open>cwd\<close> is the working directory of the session. The external call gets the prompt, the
  session's cancellation handle and a \<open>maxTurns\<close> that is the merged value or, when that is
  falsy, 10.
\<close>

lemma executeQuery_call_arguments:
  assumes "registry_ok s" and "executeQuery_begin p opts s = ((sid, r, args), s1)"
  shows "prompt args = p
   \<and> abortController_q args = abortController (objects s1 ! r)
   \<and> maxTurns_q args
       = (case maxTurns opts of
            Val n \<Rightarrow> if n \<noteq> 0 then n else 10
          | Undefined \<Rightarrow> 10
          | Absent \<Rightarrow> or_num (maxTurns (defaultOptions s)) 10)
   \<and> maxTurns (queryOptions_of opts r s1)
       = (if maxTurns opts = Absent then maxTurns (defaultOptions s) else maxTurns opts)
   \<and> permissionMode (queryOptions_of opts r s1)
       = (if permissionMode opts = Absent then permissionMode (defaultOptions s)
          else permissionMode opts)
   \<and> systemPrompt (queryOptions_of opts r s1)
       = (if systemPrompt opts = Absent then systemPrompt (defaultOptions s)
          else systemPrompt opts)
   \<and> allowedTools (queryOptions_of opts r s1)
       = (if allowedTools opts = Absent then allowedTools (defaultOptions s)
          else allowedTools opts)
   \<and> disallowedTools (queryOptions_of opts r s1)
       = (if disallowedTools opts = Absent then disallowedTools (defaultOptions s)
          else disallowedTools opts)
   \<and> cwd (queryOptions_of opts r s1)
       = (case getSession sid s of None \<Rightarrow> read_field (workingDirectory_o opts)
          | Some r0 \<Rightarrow> workingDirectory (objects s ! r0))"
proof -
  have d: "defaultOptions s1 = defaultOptions s"
    using begin_defaultOptions[of p opts s] assms(2) by simp
  have m: "maxTurns_q args = or_num (spread (maxTurns (defaultOptions s)) (maxTurns opts)) 10"
    using begin_maxTurns[of p opts s] assms(2) by simp
  have m': "or_num (spread (maxTurns (defaultOptions s)) (maxTurns opts)) 10
      = (case maxTurns opts of Val n \<Rightarrow> if n \<noteq> 0 then n else 10 | Undefined \<Rightarrow> 10
          | Absent \<Rightarrow> or_num (maxTurns (defaultOptions s)) 10)"
    by (cases "maxTurns opts") simp_all
  have a: "prompt args = p" "abortController_q args = abortController (objects s1 ! r)"
    using begin_args[OF assms(2)] by (simp_all add: queryOptions_of_def merge_options_def)
  have q: "maxTurns (queryOptions_of opts r s1)
       = (if maxTurns opts = Absent then maxTurns (defaultOptions s) else maxTurns opts)"
    "permissionMode (queryOptions_of opts r s1)
       = (if permissionMode opts = Absent then permissionMode (defaultOptions s)
          else permissionMode opts)"
    "systemPrompt (queryOptions_of opts r s1)
       = (if systemPrompt opts = Absent then systemPrompt (defaultOptions s)
          else systemPrompt opts)"
    "allowedTools (queryOptions_of opts r s1)
       = (if allowedTools opts = Absent then allowedTools (defaultOptions s)
          else allowedTools opts)"
    "disallowedTools (queryOptions_of opts r s1)
       = (if disallowedTools opts = Absent then disallowedTools (defaultOptions s)
          else disallowedTools opts)"
    by (simp_all add: queryOptions_of_def merge_options_def d spread_if)
  have w: "cwd (queryOptions_of opts r s1)
       = (case getSession sid s of None \<Rightarrow> read_field (workingDirectory_o opts)
          | Some r0 \<Rightarrow> workingDirectory (objects s ! r0))"
    using begin_workingDirectory[OF assms]
    by (simp add: queryOptions_of_def merge_options_def getSession_def)
  show ?thesis using a m m' q w by simp
qed


text \<open>
  Claim C3. The claim is that the external call is invoked with the merged configuration,
  with the permission mode, the tool lists, the system prompt and the working directory
  among its fields. The code does not do that. For options that set these fields,
  \<open>queryOptions\<close> holds them, merged over the service defaults, but the external call gets
  the prompt, the handle and \<open>maxTurns\<close> only: the same arguments as for no options at all.
\<close>

theorem executeQuery_drops_merged_options:
  "permissionMode (defaultOptions configured_service) = Val ''default''
   \<and> permissionMode (queryOptions_of plan_options 0
        (snd (executeQuery_begin ''add a README'' plan_options configured_service)))
       = Val ''plan''
   \<and> systemPrompt (queryOptions_of plan_options 0
        (snd (executeQuery_begin ''add a README'' plan_options configured_service)))
       = Val ''Be brief''
   \<and> allowedTools (queryOptions_of plan_options 0
        (snd (executeQuery_begin ''add a README'' plan_options configured_service)))
       = Val [''Read'']
   \<and> cwd (queryOptions_of plan_options 0
        (snd (executeQuery_begin ''add a README'' plan_options configured_service)))
       = Some ''/repo''
   \<and> fst (snd (fst (executeQuery_begin ''add a README'' plan_options configured_service))) = 0
   \<and> snd (snd (fst (executeQuery_begin ''add a README'' plan_options configured_service)))
       = \<lparr>prompt = ''add a README'', abortController_q = 0, maxTurns_q = 7\<rparr>
   \<and> snd (snd (fst (executeQuery_begin ''add a README'' no_options configured_service)))
       = \<lparr>prompt = ''add a README'', abortController_q = 0, maxTurns_q = 7\<rparr>"
  by (simp add: run_defs2 plan_options_def constructor_defaults_def)




text \<open>
  Claim C10. When the setting has no \<open>MAX_TURNS\<close> (or a falsy one) and \<open>options.maxTurns\<close> is
  absent or 0, the external call is invoked with \<open>maxTurns = 10\<close>.
\<close>

theorem maxTurns_falsy_fallback:
  assumes "defaultOptions s = constructor_defaults cfg"
    and "cfg = None \<or> (\<exists>c. cfg = Some c \<and> \<not> truthy_num (MAX_TURNS c))"
    and "maxTurns opts = Absent \<or> maxTurns opts = Val 0"
  shows "maxTurns_q (snd (snd (fst (executeQuery_begin p opts s)))) = 10"
proof -
  have "or_num (MAX_TURNS c) 10 = 10" if "\<not> truthy_num (MAX_TURNS c)" for c :: plugin_config
    using that by (cases "MAX_TURNS c") auto
  then have "maxTurns (defaultOptions s) = Val 10"
    using assms(1,2) by (auto simp: constructor_defaults_def no_options_def)
  then show ?thesis using assms(3) by (auto simp: begin_maxTurns)
qed

theorem maxTurns_falsy_fallback_witness:
  "defaultOptions example_service = constructor_defaults None
   \<and> maxTurns (no_options\<lparr>maxTurns := Val 0\<rparr>) = Val 0
   \<and> maxTurns_q (snd (snd (fst (executeQuery_begin ''add a README''
        (no_options\<lparr>maxTurns := Val 0\<rparr>) example_service)))) = 10"
proof -
  have h1: "defaultOptions example_service = constructor_defaults None"
    by (simp add: example_service_def ClaudeCodeService_new_def)
  have h2: "None = None \<or> (\<exists>c. None = Some c \<and> \<not> truthy_num (MAX_TURNS c))" by simp
  have h3: "maxTurns (no_options\<lparr>maxTurns := Val 0\<rparr>) = Absent
     \<or> maxTurns (no_options\<lparr>maxTurns := Val 0\<rparr>) = Val 0" by simp
  show ?thesis using maxTurns_falsy_fallback [OF h1 h2 h3] h1 by simp
qed

section \<open>The status reporter\<close>



section \<open>The session registry\<close>

text \<open>What \<open>Map.set\<close> does to the table, said without \<open>Map_set\<close>.\<close>

lemma Map_set_takeWhile:
  "Map_set k v m
     = takeWhile (\<lambda>kv. fst kv \<noteq> k) m @ (k, v) # drop 1 (dropWhile (\<lambda>kv. fst kv \<noteq> k) m)"
  by (induction m) auto

lemma Map_set_filter:
  assumes "distinct (map fst m)"
  shows "filter (\<lambda>kv. fst kv = k) (Map_set k v m) = [(k, v)]"
    and "filter (\<lambda>kv. fst kv \<noteq> k) (Map_set k v m) = filter (\<lambda>kv. fst kv \<noteq> k) m"
proof -
  have n: "filter (\<lambda>kv. fst kv = k) m' = []" if "k \<notin> fst ` set m'" for m' :: "('a \<times> 'b) list"
    using that by (induction m') auto
  show "filter (\<lambda>kv. fst kv = k) (Map_set k v m) = [(k, v)]"
    using assms by (induction m) (auto simp: n)
  show "filter (\<lambda>kv. fst kv \<noteq> k) (Map_set k v m) = filter (\<lambda>kv. fst kv \<noteq> k) m"
    by (induction m) auto
qed

text \<open>
  Claim C8. The session that \<open>createSession\<close> returns is idle and has an empty transcript
  and the working directory of the call. It is a new object, appended to the store, and its
  cancellation handle is a new controller (none of those that existed before the call)
  that has not fired. Its id is the id of the call when that is given and not empty;
  otherwise it is generated: the text \<open>claude-\<close>, the clock's reading in decimal, \<open>-\<close> and
  characters 2 to 8 of the random number's text, from a fresh reading and a fresh draw.
  After the call the table is the old table with the first entry of this id replaced in
  place by the new session, or with the new entry at the end when the id had none; so in
  a table with distinct keys the id has exactly the new entry and all other entries are
  as before, and \<open>getSession\<close> finds the new session under the id.
\<close>

theorem createSession_new_session:
  assumes "createSession i wd s = (r, s')"
  shows "status (objects s' ! r) = Idle
   \<and> messages (objects s' ! r) = []
   \<and> workingDirectory (objects s' ! r) = wd
   \<and> r = length (objects s)
   \<and> abortController (objects s' ! r) = length (controllers s)
   \<and> length (controllers s) < length (controllers s')
   \<and> \<not> controllers s' ! abortController (objects s' ! r)
   \<and> id_s (objects s' ! r)
       = (case i of None \<Rightarrow> fst (generateSessionId s)
          | Some i' \<Rightarrow> if i' \<noteq> [] then i' else fst (generateSessionId s))
   \<and> getSession (id_s (objects s' ! r)) s' = Some r
   \<and> (\<forall>k. k \<noteq> id_s (objects s' ! r) \<longrightarrow> getSession k s' = getSession k s)
   \<and> fst (generateSessionId s)
       = ''claude-'' @ Number_toString (clock s (ticks s)) @ ''-''
           @ take 7 (drop 2 (random36 s (draws s)))
   \<and> sessions s'
       = takeWhile (\<lambda>kv. fst kv \<noteq> id_s (objects s' ! r)) (sessions s)
           @ (id_s (objects s' ! r), r)
           # drop 1 (dropWhile (\<lambda>kv. fst kv \<noteq> id_s (objects s' ! r)) (sessions s))
   \<and> (keys_distinct s \<longrightarrow>
          filter (\<lambda>kv. fst kv = id_s (objects s' ! r)) (sessions s') = [(id_s (objects s' ! r), r)]
        \<and> filter (\<lambda>kv. fst kv \<noteq> id_s (objects s' ! r)) (sessions s')
            = filter (\<lambda>kv. fst kv \<noteq> id_s (objects s' ! r)) (sessions s))
   \<and> objects s' = objects s @ [objects s' ! r]
   \<and> controllers s' = controllers s @ [False]
   \<and> (if i = None \<or> i = Some [] then ticks s' = ticks s + 3 \<and> draws s' = draws s + 1
        else ticks s' = ticks s + 2 \<and> draws s' = draws s)"
proof -
  define i' where "i' = (case i of None \<Rightarrow> fst (generateSessionId s)
          | Some j \<Rightarrow> if j \<noteq> [] then j else fst (generateSessionId s))"
  define s0 where "s0 = (case i of None \<Rightarrow> snd (generateSessionId s)
          | Some j \<Rightarrow> if j \<noteq> [] then s else snd (generateSessionId s))"
  have ne: "i' \<noteq> []"
    using generateSessionId_nonempty[of s] by (auto simp: i'_def split: option.splits)
  have c: "createSession i wd s = createSession (Some i') wd s0"
    using ne by (auto simp: createSession_def i'_def s0_def split: option.splits prod.splits)
  have f: "sessions s0 = sessions s" "objects s0 = objects s" "controllers s0 = controllers s"
    by (auto simp: s0_def generateSessionId_fields split: option.splits)
  have cs: "createSession (Some i') wd s0 = (r, s')" using assms c by simp
  have r: "r = length (objects s)"
    using cs f unfolding createSession_Some[OF ne] by simp
  have s': "s' = s0\<lparr>ticks := Suc (Suc (ticks s0)), controllers := controllers s @ [False],
       objects := objects s @ [\<lparr>id_s = i', startedAt = clock s0 (ticks s0),
           lastActivityAt = clock s0 (Suc (ticks s0)), messages = [],
           abortController = length (controllers s), status = Idle, workingDirectory = wd\<rparr>],
       sessions := Map_set i' (length (objects s)) (sessions s)\<rparr>"
    using cs f unfolding createSession_Some[OF ne] by auto
  have g: "fst (generateSessionId s)
       = ''claude-'' @ Number_toString (clock s (ticks s)) @ ''-''
           @ take 7 (drop 2 (random36 s (draws s)))"
    by (simp add: generateSessionId_def Date_now_def Math_random_toString36_def make_id_def
          substring_def)
  have k: "keys_distinct s \<longrightarrow>
          filter (\<lambda>kv. fst kv = i') (Map_set i' r (sessions s)) = [(i', r)]
        \<and> filter (\<lambda>kv. fst kv \<noteq> i') (Map_set i' r (sessions s))
            = filter (\<lambda>kv. fst kv \<noteq> i') (sessions s)"
    using Map_set_filter[of "sessions s" i' r] by (simp add: keys_distinct_def)
  have t: "Map_set i' r (sessions s)
     = takeWhile (\<lambda>kv. fst kv \<noteq> i') (sessions s) @ (i', r)
         # drop 1 (dropWhile (\<lambda>kv. fst kv \<noteq> i') (sessions s))"
    by (rule Map_set_takeWhile)
  have id: "id_s (objects s' ! r) = i'" by (simp add: s' r)
  have reg: "sessions s' = Map_set i' r (sessions s)" by (simp add: s' r)
  have a: "status (objects s' ! r) = Idle \<and> messages (objects s' ! r) = []
     \<and> workingDirectory (objects s' ! r) = wd \<and> r = length (objects s)
     \<and> abortController (objects s' ! r) = length (controllers s)
     \<and> length (controllers s) < length (controllers s')
     \<and> \<not> controllers s' ! abortController (objects s' ! r)"
    by (simp add: s' r)
  have b: "getSession i' s' = Some r \<and> (\<forall>k. k \<noteq> i' \<longrightarrow> getSession k s' = getSession k s)"
    by (simp add: getSession_def reg Map_get_Map_set)
  have o: "objects s' = objects s @ [objects s' ! r] \<and> controllers s' = controllers s @ [False]"
    by (simp add: s' r)
  have u: "if i = None \<or> i = Some [] then ticks s' = ticks s + 3 \<and> draws s' = draws s + 1
        else ticks s' = ticks s + 2 \<and> draws s' = draws s"
    by (auto simp: s' s0_def generateSessionId_def Date_now_def Math_random_toString36_def
          split: option.splits)
  show ?thesis
    unfolding id reg i'_def[symmetric] using a b g k t o u by blast
qed

text \<open>
  In the registry of three sessions, creating a session with the id \<open>a\<close> again replaces the
  entry of \<open>a\<close> in place by the new session at address 3 and leaves the others. In a new
  service, creating a session without an id registers it under the generated text.
\<close>

theorem createSession_new_session_witness:
  "fst (createSession (Some ''a'') None stale_service) = 3
   \<and> sessions stale_service = [(''a'', 0), (''b'', 1), (''c'', 2)]
   \<and> sessions (snd (createSession (Some ''a'') None stale_service))
       = [(''a'', 3), (''b'', 1), (''c'', 2)]
   \<and> getSession ''a'' (snd (createSession (Some ''a'') None stale_service)) = Some 3
   \<and> status (objects (snd (createSession (Some ''a'') None stale_service)) ! 3) = Idle
   \<and> messages (objects (snd (createSession (Some ''a'') None stale_service)) ! 3) = []
   \<and> abortController (objects (snd (createSession (Some ''a'') None stale_service)) ! 3) = 3
   \<and> controllers (snd (createSession (Some ''a'') None stale_service))
       = [False, False, False, False]
   \<and> id_s (objects (snd (createSession None None example_service)) ! 0)
       = ''claude-1700000000000-4fzyo82''
   \<and> sessions (snd (createSession None None example_service))
       = [(''claude-1700000000000-4fzyo82'', 0)]"
proof -
  let ?C = "createSession (Some ''a'') None stale_service"
  let ?D = "createSession None None example_service"
  have h: "?C = (fst ?C, snd ?C)" by simp
  have h': "?D = (fst ?D, snd ?D)" by simp
  have r: "fst ?C = 3" "controllers stale_service = [False, False, False]"
    "sessions stale_service = [(''a'', 0), (''b'', 1), (''c'', 2)]"
    by (simp_all add: createSession_Some stale_service_def)
  have e: "sessions example_service = []" "clock example_service (ticks example_service) = 1700000000000"
    "random36 example_service (draws example_service) = ''0.4fzyo82mvyr''"
    "length (objects example_service) = 0"
    by (simp_all add: example_service_def ClaudeCodeService_new_def)
  have n: "Number_toString 1700000000000 = ''1700000000000''"
    by (simp add: Number_toString_def digits10.simps digit_char_def)
  note t = createSession_new_session [OF h, unfolded r(1)]
  note t' = createSession_new_session [OF h']
  have i: "id_s (objects (snd ?C) ! 3) = ''a''" using t by simp
  have d1: "fst ?D = 0" using t' e(4) by (elim conjE) simp
  have d2: "id_s (objects (snd ?D) ! fst ?D) = fst (generateSessionId example_service)"
    using t' by (elim conjE) simp
  have d3: "fst (generateSessionId example_service) = ''claude-1700000000000-4fzyo82''"
    using t' unfolding e n by (elim conjE) simp
  have i': "fst ?D = 0" "id_s (objects (snd ?D) ! 0) = ''claude-1700000000000-4fzyo82''"
    using d1 d2 d3 by simp_all
  have "sessions (snd ?C) = [(''a'', 3), (''b'', 1), (''c'', 2)]"
  proof -
    have "sessions (snd ?C)
       = takeWhile (\<lambda>kv. fst kv \<noteq> id_s (objects (snd ?C) ! 3)) (sessions stale_service)
           @ (id_s (objects (snd ?C) ! 3), 3)
           # drop 1 (dropWhile (\<lambda>kv. fst kv \<noteq> id_s (objects (snd ?C) ! 3))
               (sessions stale_service))"
      using t by blast
    then show ?thesis unfolding i r(3) by simp
  qed
  moreover have "sessions (snd ?D) = [(''claude-1700000000000-4fzyo82'', 0)]"
  proof -
    have "sessions (snd ?D)
       = takeWhile (\<lambda>kv. fst kv \<noteq> id_s (objects (snd ?D) ! fst ?D)) (sessions example_service)
           @ (id_s (objects (snd ?D) ! fst ?D), fst ?D)
           # drop 1 (dropWhile (\<lambda>kv. fst kv \<noteq> id_s (objects (snd ?D) ! fst ?D))
               (sessions example_service))"
      using t' by blast
    then show ?thesis unfolding i' e(1) by simp
  qed
  moreover have "controllers (snd ?C) = [False, False, False, False]"
  proof -
    have "controllers (snd ?C) = controllers stale_service @ [False]" using t by blast
    then show ?thesis by (simp add: r(2))
  qed
  moreover have "getSession ''a'' (snd ?C) = Some 3"
  proof -
    have "getSession (id_s (objects (snd ?C) ! 3)) (snd ?C) = Some 3" using t by blast
    then show ?thesis unfolding i .
  qed
  moreover have "status (objects (snd ?C) ! 3) = Idle" "messages (objects (snd ?C) ! 3) = []"
    "abortController (objects (snd ?C) ! 3) = length (controllers stale_service)"
    using t by blast+
  ultimately show ?thesis
    using r i' by simp
qed

subsection \<open>Cleanup\<close>

lemma fold_Map_delete: "fold Map_delete ks m = filter (\<lambda>kv. fst kv \<notin> set ks) m"
proof (induction ks arbitrary: m)
  case Nil
  show ?case by simp
next
  case (Cons k ks)
  have "fold Map_delete (k # ks) m = fold Map_delete ks (Map_delete k m)" by simp
  also have "\<dots> = filter (\<lambda>kv. fst kv \<notin> set ks) (Map_delete k m)" by (rule Cons.IH)
  also have "\<dots> = filter (\<lambda>kv. fst kv \<notin> set (k # ks)) m"
    by (auto simp: Map_delete_def intro: filter_cong)
  finally show ?case .
qed

lemma key_in_filtered:
  assumes "distinct (map fst m)" and "kv \<in> set m"
  shows "fst kv \<in> set (map fst (filter P m)) \<longleftrightarrow> P kv"
proof
  assume "fst kv \<in> set (map fst (filter P m))"
  then obtain kv' where kv': "kv' \<in> set m" "P kv'" "fst kv' = fst kv" by auto
  have "inj_on fst (set m)" using assms(1) by (simp add: distinct_map)
  then have "kv' = kv" using kv'(1,3) assms(2) by (auto dest: inj_onD)
  then show "P kv" using kv'(2) by simp
next
  assume "P kv"
  then show "fst kv \<in> set (map fst (filter P m))" using assms(2) by auto
qed

lemma delete_filtered:
  assumes "distinct (map fst m)"
  shows "fold Map_delete (map fst (filter P m)) m = filter (\<lambda>kv. \<not> P kv) m"
proof -
  have "(fst kv \<notin> set (map fst (filter P m))) = (\<not> P kv)" if "kv \<in> set m" for kv
    using key_in_filtered[OF assms that, of P] by blast
  then show ?thesis
    unfolding fold_Map_delete by (rule filter_cong[OF refl])
qed

text \<open>
  Claim C5, as the code has it. With \<open>now\<close> the clock's reading at the call and \<open>maxAge\<close> the
  argument (one hour when it is omitted), \<open>cleanupSessions\<close> keeps, in their order, exactly
  the sessions that are running or whose \<open>now - lastActivityAt\<close> is at most \<open>maxAge\<close>, and
  removes the others; a running session is never removed. No session object changes. The
  function returns no value.
\<close>

theorem cleanupSessions_removes_stale:
  assumes "keys_distinct s"
  shows "sessions (snd (cleanupSessions maxAge' s))
       = filter (\<lambda>(id', r).
           \<not> (clock s (ticks s) - lastActivityAt (objects s ! r)
                 > (case maxAge' of None \<Rightarrow> 3600000 | Some a \<Rightarrow> a)
              \<and> status (objects s ! r) \<noteq> Running)) (sessions s)
   \<and> objects (snd (cleanupSessions maxAge' s)) = objects s
   \<and> fst (cleanupSessions maxAge' s) = Returns_undefined"
proof -
  let ?P = "\<lambda>(id', r). clock s (ticks s) - lastActivityAt (objects s ! r)
                 > (case maxAge' of None \<Rightarrow> 3600000 | Some a \<Rightarrow> a)
              \<and> status (objects s ! r) \<noteq> Running"
  have "fold Map_delete (map fst (filter ?P (sessions s))) (sessions s)
      = filter (\<lambda>kv. \<not> ?P kv) (sessions s)"
    using assms by (intro delete_filtered) (simp add: keys_distinct_def)
  then show ?thesis
    by (simp add: cleanupSessions_def sessionsToRemove_def Date_now_def Let_def case_prod_unfold)
qed

text \<open>
  The stale cleanup of the specification: of two idle sessions and a running one, all two
  hours old, the running one stays.
\<close>

theorem cleanupSessions_removes_stale_witness:
  "keys_distinct stale_service
   \<and> sessions (snd (cleanupSessions (Some 3600000) stale_service)) = [(''b'', 1)]
   \<and> status (objects (snd (cleanupSessions (Some 3600000) stale_service)) ! 1) = Running
   \<and> fst (cleanupSessions (Some 3600000) stale_service) = Returns_undefined"
proof -
  have h: "keys_distinct stale_service"
    by (simp add: keys_distinct_def stale_service_def)
  have o: "sessions stale_service = [(''a'', 0), (''b'', 1), (''c'', 2)]"
    "clock stale_service (ticks stale_service) = 1700007200000"
    "lastActivityAt (objects stale_service ! 0) = 1700000000000"
    "lastActivityAt (objects stale_service ! 1) = 1700000000000"
    "lastActivityAt (objects stale_service ! 2) = 1700000000000"
    "status (objects stale_service ! 0) = Idle"
    "status (objects stale_service ! 1) = Running"
    "status (objects stale_service ! 2) = Idle"
    by (simp_all add: stale_service_def)
  show ?thesis
    using cleanupSessions_removes_stale [OF h, of "Some 3600000"] h o by simp
qed

text \<open>
  The claim as it is written fails in its last part: in that scenario two sessions are
  removed, and the value of the call is not the number 2.
\<close>

theorem cleanupSessions_returns_counterexample:
  "length (sessions stale_service)
     - length (sessions (snd (cleanupSessions (Some 3600000) stale_service))) = 2
   \<and> fst (cleanupSessions (Some 3600000) stale_service) \<noteq> Returns_number 2"
  by (simp add: cleanupSessions_def sessionsToRemove_def Date_now_def stale_service_def
        Map_delete_def)

subsection \<open>Generated ids\<close>

lemma digit_char_inj: "a < 10 \<Longrightarrow> b < 10 \<Longrightarrow> digit_char a = digit_char b \<Longrightarrow> a = b"
proof -
  assume a: "a < 10" and b: "b < 10" and e: "digit_char a = digit_char b"
  have d: "distinct ''0123456789''" by simp
  have "''0123456789'' ! a = ''0123456789'' ! b" using a b e by (simp add: digit_char_def)
  then show "a = b" using d a b by (simp add: nth_eq_iff_index_eq)
qed

lemma digit_char_not_minus: "digit_char d \<noteq> CHR ''-''"
proof -
  have "d mod 10 < 10" by simp
  then have "''0123456789'' ! (d mod 10) \<in> set ''0123456789''" by (intro nth_mem) simp
  then show ?thesis unfolding digit_char_def by auto
qed

lemma digits10_not_Nil: "digits10 n \<noteq> []"
  by (subst digits10.simps) simp

lemma digits10_no_minus: "CHR ''-'' \<notin> set (digits10 n)"
proof (induction n rule: digits10.induct)
  case (1 n)
  show ?case
  proof (cases "n < 10")
    case True
    then show ?thesis using digit_char_not_minus[of n] by (subst digits10.simps) auto
  next
    case False
    then show ?thesis using 1 digit_char_not_minus[of "n mod 10"]
      by (subst digits10.simps) auto
  qed
qed

lemma digits10_inj: "digits10 n = digits10 m \<Longrightarrow> n = m"
proof (induction n arbitrary: m rule: digits10.induct)
  case (1 n)
  show ?case
  proof (cases "n < 10")
    case n: True
    show ?thesis
    proof (cases "m < 10")
      case True
      then show ?thesis using n "1.prems" digit_char_inj[of n m]
        by (simp add: digits10.simps[of n] digits10.simps[of m])
    next
      case False
      then show ?thesis using n "1.prems" digits10_not_Nil[of "m div 10"]
        by (simp add: digits10.simps[of n] digits10.simps[of m])
    qed
  next
    case n: False
    show ?thesis
    proof (cases "m < 10")
      case True
      then show ?thesis using n "1.prems" digits10_not_Nil[of "n div 10"]
        by (simp add: digits10.simps[of n] digits10.simps[of m])
    next
      case False
      then have e: "digits10 (n div 10) = digits10 (m div 10)"
        "digit_char (n mod 10) = digit_char (m mod 10)"
        using n "1.prems" by (simp_all add: digits10.simps[of n] digits10.simps[of m])
      have "n div 10 = m div 10" using "1.IH"[OF n e(1)] .
      moreover have "n mod 10 = m mod 10" using digit_char_inj[OF _ _ e(2)] by simp
      ultimately show ?thesis by (metis div_mult_mod_eq)
    qed
  qed
qed

lemma split_at_separator:
  "c \<notin> set xs \<Longrightarrow> c \<notin> set xs' \<Longrightarrow> xs @ c # ys = xs' @ c # ys' \<Longrightarrow> xs = xs' \<and> ys = ys'"
proof (induction xs arbitrary: xs')
  case Nil
  then show ?case by (cases xs') auto
next
  case (Cons x xs)
  then show ?case by (cases xs') auto
qed

lemma Number_toString_separated:
  assumes "Number_toString t @ CHR ''-'' # u = Number_toString t' @ CHR ''-'' # u'"
  shows "t = t' \<and> u = u'"
proof -
  have hd_digit: "hd (digits10 n) \<noteq> CHR ''-''" for n
    using digits10_no_minus[of n] digits10_not_Nil[of n] by (cases "digits10 n") auto
  have neq: False if "digits10 n @ CHR ''-'' # v = CHR ''-'' # w" for n v w
    using that hd_digit[of n] digits10_not_Nil[of n] by (cases "digits10 n") auto
  show ?thesis
  proof (cases "t < 0")
    case t: True
    show ?thesis
    proof (cases "t' < 0")
      case True
      then have "digits10 (nat (- t)) @ CHR ''-'' # u = digits10 (nat (- t')) @ CHR ''-'' # u'"
        using t assms by (simp add: Number_toString_def)
      from split_at_separator[OF digits10_no_minus digits10_no_minus this]
      show ?thesis using t True by (auto dest: digits10_inj)
    next
      case False
      then show ?thesis using t assms neq[of "nat t'" u' "digits10 (nat (- t)) @ CHR ''-'' # u"]
        by (simp add: Number_toString_def)
    qed
  next
    case t: False
    show ?thesis
    proof (cases "t' < 0")
      case True
      then show ?thesis using t assms neq[of "nat t" u "digits10 (nat (- t')) @ CHR ''-'' # u'"]
        by (simp add: Number_toString_def)
    next
      case False
      then have "digits10 (nat t) @ CHR ''-'' # u = digits10 (nat t') @ CHR ''-'' # u'"
        using t assms by (simp add: Number_toString_def)
      from split_at_separator[OF digits10_no_minus digits10_no_minus this]
      show ?thesis using t False by (auto dest: digits10_inj)
    qed
  qed
qed

lemma make_id_eq_iff:
  "make_id t r = make_id t' r' \<longleftrightarrow> t = t' \<and> substring 2 9 r = substring 2 9 r'"
  using Number_toString_separated[of t "substring 2 9 r" t' "substring 2 9 r'"]
  by (auto simp: make_id_def)

text \<open>
  Claim C7, as the code has it. An id is generated from the clock reading in milliseconds
  and seven characters of a random number. The ids generated in the states \<open>ss\<close> are pairwise
  distinct exactly when these pairs are pairwise distinct: two calls that read the same
  millisecond and draw random numbers with the same seven characters get the same id.
\<close>

theorem generated_ids_distinct:
  "distinct (map (\<lambda>s. fst (generateSessionId s)) ss) \<longleftrightarrow> distinct (map id_source ss)"
proof -
  have e: "fst (generateSessionId s) = fst (generateSessionId s') \<longleftrightarrow> id_source s = id_source s'"
    for s s'
    by (auto simp: generateSessionId_def Date_now_def Math_random_toString36_def id_source_def
          make_id_eq_iff)
  show ?thesis
  proof (induction ss)
    case Nil
    show ?case by simp
  next
    case (Cons s ss)
    have "fst (generateSessionId s) \<in> (\<lambda>s. fst (generateSessionId s)) ` set ss
        \<longleftrightarrow> id_source s \<in> id_source ` set ss"
      using e by (auto simp: image_iff)
    then show ?case using Cons by simp
  qed
qed

text \<open>With a clock that advances between the calls, two generated ids differ.\<close>

theorem generated_ids_distinct_witness:
  "distinct (map id_source [example_service, snd (generateSessionId example_service)])
   \<and> distinct (map (\<lambda>s. fst (generateSessionId s))
        [example_service, snd (generateSessionId example_service)])"
proof -
  have "distinct (map id_source [example_service, snd (generateSessionId example_service)])"
    by (simp add: id_source_def example_service_def ClaudeCodeService_new_def
          generateSessionId_def Date_now_def Math_random_toString36_def)
  then show ?thesis
    using generated_ids_distinct [of "[example_service, snd (generateSessionId example_service)]"]
    by simp
qed

text \<open>
  The claim as it is written fails. Two calls of \<open>createSession\<close> without an id, within one
  millisecond and with random numbers that differ after the seventh character, create two
  session objects with the same id.
\<close>

theorem generated_ids_collide_counterexample:
  "fst created_once = 0 \<and> fst created_twice = 1
   \<and> random36 same_ms_service 0 \<noteq> random36 same_ms_service 1
   \<and> id_s (objects (snd created_twice) ! 0) = ''claude-1700000000000-4fzyo82''
   \<and> id_s (objects (snd created_twice) ! 1) = ''claude-1700000000000-4fzyo82''"
  by (simp add: created_once_def created_twice_def same_ms_service_def createSession_def
        ClaudeCodeService_new_def generateSessionId_def Date_now_def Math_random_toString36_def
        new_AbortController_def new_object_def Let_def make_id_def substring_def
        Number_toString_def digits10.simps digit_char_def)

section \<open>Cancellation handles\<close>

text \<open>
  The only step that fires a handle is \<open>stop\<close>, and \<open>stop\<close> empties the registry. So in
  every state that the service reaches, the handle of every registered session has not
  fired.
\<close>

lemma set_fold_Map_delete: "set (fold Map_delete ks m) \<subseteq> set m"
  by (simp add: fold_Map_delete)

lemma handles_unfiredD:
  assumes "handles_unfired s" and "r \<in> snd ` set (sessions s)"
  shows "r < length (objects s)" and "abortController (objects s ! r) < length (controllers s)"
    and "\<not> controllers s ! abortController (objects s ! r)"
proof -
  have "r < length (objects s) \<and> abortController (objects s ! r) < length (controllers s)
     \<and> \<not> controllers s ! abortController (objects s ! r)"
    using assms unfolding handles_unfired_def by (rule bspec)
  then show "r < length (objects s)"
    and "abortController (objects s ! r) < length (controllers s)"
    and "\<not> controllers s ! abortController (objects s ! r)" by simp_all
qed

lemma handles_unfired_update:
  assumes "handles_unfired s" and "\<And>x. abortController (f x) = abortController x"
  shows "handles_unfired (update_session r f s)"
  unfolding handles_unfired_def
proof
  fix r' assume "r' \<in> snd ` set (sessions (update_session r f s))"
  then have r': "r' \<in> snd ` set (sessions s)" by (simp add: update_session_def)
  then have h: "r' < length (objects s)" "abortController (objects s ! r') < length (controllers s)"
    "\<not> controllers s ! abortController (objects s ! r')"
    using assms(1) by (auto simp: handles_unfired_def)
  have "abortController (objects (update_session r f s) ! r') = abortController (objects s ! r')"
    using h(1) assms(2) by (cases "r' = r") (simp_all add: update_session_def)
  then show "r' < length (objects (update_session r f s))
     \<and> abortController (objects (update_session r f s) ! r') < length (controllers (update_session r f s))
     \<and> \<not> controllers (update_session r f s) ! abortController (objects (update_session r f s) ! r')"
    using h by (simp add: update_session_def)
qed

lemma handles_unfired_ticks:
  "handles_unfired (s\<lparr>ticks := n\<rparr>) = handles_unfired s"
  "handles_unfired (s\<lparr>draws := n\<rparr>) = handles_unfired s"
  by (simp_all add: handles_unfired_def)

lemma handles_unfired_generate:
  "handles_unfired (snd (generateSessionId s)) = handles_unfired s"
  by (simp add: handles_unfired_def generateSessionId_fields)

lemma handles_unfired_register:
  assumes "handles_unfired s"
  shows "handles_unfired
     (s\<lparr>ticks := n, controllers := controllers s @ [False],
        objects := objects s @ [x\<lparr>abortController := length (controllers s)\<rparr>],
        sessions := Map_set i (length (objects s)) (sessions s)\<rparr>)"
  unfolding handles_unfired_def
proof
  let ?s' = "s\<lparr>ticks := n, controllers := controllers s @ [False],
        objects := objects s @ [x\<lparr>abortController := length (controllers s)\<rparr>],
        sessions := Map_set i (length (objects s)) (sessions s)\<rparr>"
  fix r assume "r \<in> snd ` set (sessions ?s')"
  then obtain k where "(k, r) \<in> set (Map_set i (length (objects s)) (sessions s))" by auto
  then consider "r = length (objects s)" | "r \<in> snd ` set (sessions s)"
    using set_Map_set[of k r i "length (objects s)" "sessions s"] by force
  then show "r < length (objects ?s') \<and> abortController (objects ?s' ! r) < length (controllers ?s')
     \<and> \<not> controllers ?s' ! abortController (objects ?s' ! r)"
  proof cases
    case 1
    then show ?thesis by (simp add: nth_append)
  next
    case 2
    then have "r < length (objects s)" "abortController (objects s ! r) < length (controllers s)"
      "\<not> controllers s ! abortController (objects s ! r)"
      using assms by (auto simp: handles_unfired_def)
    then show ?thesis by (simp add: nth_append)
  qed
qed

lemma handles_unfired_createSession_Some:
  assumes "handles_unfired s" and "i \<noteq> []"
  shows "handles_unfired (snd (createSession (Some i) wd s))"
  using handles_unfired_register[OF assms(1), where n = "Suc (Suc (ticks s))"
      and x = "\<lparr>id_s = i, startedAt = clock s (ticks s),
           lastActivityAt = clock s (Suc (ticks s)), messages = [],
           abortController = 0, status = Idle, workingDirectory = wd\<rparr>" and i = i]
  by (simp add: createSession_Some[OF assms(2)])

lemma createSession_None:
  "createSession None wd s
     = createSession (Some (fst (generateSessionId s))) wd (snd (generateSessionId s))"
  "createSession (Some []) wd s
     = createSession (Some (fst (generateSessionId s))) wd (snd (generateSessionId s))"
  using generateSessionId_nonempty[of s]
  by (simp_all add: createSession_def split: prod.splits)

lemma handles_unfired_createSession:
  assumes "handles_unfired s"
  shows "handles_unfired (snd (createSession i wd s))"
proof (cases "i = None \<or> i = Some []")
  case True
  then show ?thesis
    using handles_unfired_createSession_Some[of "snd (generateSessionId s)"
        "fst (generateSessionId s)" wd] assms generateSessionId_nonempty[of s]
    by (auto simp: createSession_None handles_unfired_generate)
next
  case False
  then obtain i' where "i = Some i'" "i' \<noteq> []" by (cases i) auto
  then show ?thesis using handles_unfired_createSession_Some[OF assms] by simp
qed

lemma handles_unfired_cleanup:
  assumes "handles_unfired s"
  shows "handles_unfired (snd (cleanupSessions a s))"
  using assms set_fold_Map_delete[of _ "sessions s"]
  by (fastforce simp: handles_unfired_def cleanupSessions_def Date_now_def Let_def)

lemma stop_sessions: "sessions (stop s) = []"
  by (simp add: stop_def)

lemma handles_unfired_stop: "handles_unfired (stop s)"
  by (simp add: handles_unfired_def stop_sessions)


lemma handles_unfired_sessions:
  assumes "handles_unfired s" and "snd ` set m \<subseteq> snd ` set (sessions s)"
  shows "handles_unfired (s\<lparr>sessions := m\<rparr>)"
  unfolding handles_unfired_def
proof
  fix r assume "r \<in> snd ` set (sessions (s\<lparr>sessions := m\<rparr>))"
  then have "r \<in> snd ` set (sessions s)" using assms(2) by auto
  from handles_unfiredD[OF assms(1) this]
  show "r < length (objects (s\<lparr>sessions := m\<rparr>))
     \<and> abortController (objects (s\<lparr>sessions := m\<rparr>) ! r) < length (controllers (s\<lparr>sessions := m\<rparr>))
     \<and> \<not> controllers (s\<lparr>sessions := m\<rparr>) ! abortController (objects (s\<lparr>sessions := m\<rparr>) ! r)"
    by simp
qed

lemma handles_unfired_resolve:
  "handles_unfired (snd (resolve_sessionId opts s)) = handles_unfired s"
  by (simp add: handles_unfired_def resolve_sessionId_fields)

lemma get_or_create_cases:
  assumes "i \<noteq> []" and "get_or_create i opts s = (r, s2)"
  shows "Map_get (sessions s) i = Some r \<or> r = length (objects s)"
  using assms
  by (auto simp: get_or_create_def createSession_Some split: option.splits)

lemma mark_running_fields:
  "sessions (mark_running r s) = sessions s"
  "length (objects (mark_running r s)) = length (objects s)"
  by (simp_all add: mark_running_def Let_def Date_now_def update_session_def)

lemma begin_session_cases:
  assumes "executeQuery_begin p opts s = ((sid, r, args), s1)"
  shows "Map_get (sessions s) sid = Some r \<or> r = length (objects s)"
proof -
  obtain i s0 where r: "resolve_sessionId opts s = (i, s0)"
    by (cases "resolve_sessionId opts s")
  have f: "sessions s0 = sessions s" "objects s0 = objects s" "i \<noteq> []"
    using resolve_sessionId_fields[of opts s] r by simp_all
  obtain r' s2 where g: "get_or_create i opts s0 = (r', s2)"
    by (cases "get_or_create i opts s0")
  have "sid = i" "r = r'" using assms r g by (simp_all add: executeQuery_begin_def Let_def)
  then show ?thesis using get_or_create_cases[OF f(3) g] f(1,2) by simp
qed

lemma handles_unfired_get_or_create:
  assumes "handles_unfired s" and "i \<noteq> []"
  shows "handles_unfired (snd (get_or_create i opts s))"
proof (cases "Map_get (sessions s) i")
  case None
  let ?c = "createSession (Some i) (read_field (workingDirectory_o opts)) s"
  have c: "handles_unfired (snd ?c)" using handles_unfired_createSession[OF assms(1)] .
  have "Map_get (sessions (snd ?c)) i = Some (fst ?c)"
    by (simp add: createSession_Some[OF assms(2)] Map_get_Map_set)
  then have "fst ?c \<in> snd ` set (sessions (snd ?c))" by (rule Map_get_in)
  then have "snd ` set (Map_set i (fst ?c) (sessions (snd ?c))) \<subseteq> snd ` set (sessions (snd ?c))"
    using set_Map_set[of _ _ i "fst ?c" "sessions (snd ?c)"] by force
  from handles_unfired_sessions[OF c this]
  show ?thesis using None by (simp add: get_or_create_def case_prod_unfold Let_def)
next
  case (Some a)
  then show ?thesis using assms(1) by (simp add: get_or_create_def)
qed

lemma handles_unfired_mark_running:
  assumes "handles_unfired s"
  shows "handles_unfired (mark_running r s)"
  using assms
  by (simp add: mark_running_def Let_def Date_now_def handles_unfired_update
        handles_unfired_ticks)

lemma handles_unfired_begin:
  assumes "handles_unfired s"
  shows "handles_unfired (snd (executeQuery_begin p opts s))"
proof -
  obtain i s0 where r: "resolve_sessionId opts s = (i, s0)"
    by (cases "resolve_sessionId opts s")
  have s0: "handles_unfired s0" "i \<noteq> []"
    using handles_unfired_resolve[of opts s] resolve_sessionId_fields(5)[of opts s] r assms
    by simp_all
  show ?thesis
    using r handles_unfired_mark_running[OF handles_unfired_get_or_create[OF s0, of opts]]
    by (simp add: executeQuery_begin_def Let_def case_prod_unfold)
qed

lemma reachable_handles_unfired: "reachable s \<Longrightarrow> handles_unfired s"
proof (induction rule: reachable.induct)
  case (reachable_new cfg clk rnd key)
  show ?case by (simp add: handles_unfired_def ClaudeCodeService_new_def)
next
  case (reachable_step s s')
  from reachable_step.hyps(2) reachable_step.IH show ?case
  proof (cases rule: step.cases)
    case (step_create i wd)
    then show ?thesis using reachable_step.IH by (simp add: handles_unfired_createSession)
  next
    case (step_cleanup a)
    then show ?thesis using reachable_step.IH by (simp add: handles_unfired_cleanup)
  next
    case step_stop
    then show ?thesis by (simp add: handles_unfired_stop)
  next
    case (step_begin p opts)
    then show ?thesis using reachable_step.IH by (simp add: handles_unfired_begin)
  next
    case (step_message r m)
    then show ?thesis using reachable_step.IH
      by (simp add: push_message_def handles_unfired_update)
  next
    case (step_completed r)
    then show ?thesis using reachable_step.IH
      by (simp add: executeQuery_completed_def handles_unfired_update)
  next
    case (step_failed r)
    then show ?thesis using reachable_step.IH
      by (simp add: executeQuery_failed_def handles_unfired_update)
  qed
qed

lemma handles_unfired_registry_ok: "handles_unfired s \<Longrightarrow> registry_ok s"
  by (simp add: handles_unfired_def registry_ok_def)

text \<open>
  Claim C4. In every state that the service reaches, a session whose cancellation handle has
  fired is registered under no id, and an \<open>executeQuery\<close> that starts in that state does
  not use it, whatever session id it names: the query runs in another session object, one
  that is registered or that \<open>executeQuery\<close> creates, whose handle has not fired, and that
  handle is the one given to the external call.
\<close>

theorem fired_session_not_reused:
  assumes "reachable s" and "fired s r"
  shows "getSession k s \<noteq> Some r
   \<and> fst (snd (fst (executeQuery_begin p opts s))) \<noteq> r
   \<and> \<not> fired (snd (executeQuery_begin p opts s)) (fst (snd (fst (executeQuery_begin p opts s))))
   \<and> abortController_q (snd (snd (fst (executeQuery_begin p opts s))))
       = abortController (objects (snd (executeQuery_begin p opts s))
           ! fst (snd (fst (executeQuery_begin p opts s))))"
proof -
  let ?B = "executeQuery_begin p opts s"
  have inv: "handles_unfired s" using reachable_handles_unfired[OF assms(1)] .
  have unreg: "Map_get (sessions s) k' \<noteq> Some r" for k'
  proof
    assume "Map_get (sessions s) k' = Some r"
    then have "r \<in> snd ` set (sessions s)" by (rule Map_get_in)
    then have "\<not> controllers s ! abortController (objects s ! r)"
      by (rule handles_unfiredD(3)[OF inv])
    then show False using assms(2) by (simp add: fired_def)
  qed
  have e: "?B = ((fst (fst ?B), fst (snd (fst ?B)), snd (snd (fst ?B))), snd ?B)" by simp
  have "fst (snd (fst ?B)) \<noteq> r"
    using begin_session_cases[OF e] unreg[of "fst (fst ?B)"] assms(2) by (auto simp: fired_def)
  moreover have "\<not> fired (snd ?B) (fst (snd (fst ?B)))"
  proof -
    have "Map_get (sessions (snd ?B)) (fst (fst ?B)) = Some (fst (snd (fst ?B)))"
      using begin_facts[OF handles_unfired_registry_ok[OF inv] e] by simp
    then have "fst (snd (fst ?B)) \<in> snd ` set (sessions (snd ?B))" by (rule Map_get_in)
    from handles_unfiredD(3)[OF handles_unfired_begin[OF inv] this]
    show ?thesis by (simp add: fired_def)
  qed
  moreover have "abortController_q (snd (snd (fst ?B)))
       = abortController (objects (snd ?B) ! fst (snd (fst ?B)))"
    using begin_args[OF e] by (simp add: queryOptions_of_def merge_options_def)
  ultimately show ?thesis using unreg[of k] by (simp add: getSession_def)
qed

text \<open>
  A query is in flight in \<open>session-1\<close> when the service stops: the handle of that session
  fires. The next \<open>executeQuery\<close> for \<open>session-1\<close> gets a new session object, at address 1.
\<close>

lemma in_flight_reachable: "reachable in_flight_service"
  unfolding in_flight_service_def example_service_def
  by (rule reachable_step[OF reachable_new step_begin])

lemma stopped_reachable: "reachable stopped_service"
  unfolding stopped_service_def
  by (rule reachable_step[OF in_flight_reachable step_stop])

lemma in_flight_eval:
  "sessions in_flight_service = [(''session-1'', 0)]"
  "status (objects in_flight_service ! 0) = Running"
  "length (objects in_flight_service) = 1"
  "abortController (objects in_flight_service ! 0) = 0"
  "controllers in_flight_service = [False]"
  by (simp_all add: in_flight_service_def session_1_def run_defs update_session_def)

theorem fired_session_not_reused_witness:
  "reachable stopped_service
   \<and> fired stopped_service 0
   \<and> getSession ''session-1'' stopped_service = None
   \<and> fst (snd (fst (executeQuery_begin ''again'' session_1 stopped_service))) = 1
   \<and> \<not> fired (snd (executeQuery_begin ''again'' session_1 stopped_service)) 1"
proof -
  let ?B = "executeQuery_begin ''again'' session_1 stopped_service"
  have s: "sessions stopped_service = []" "objects stopped_service = objects in_flight_service"
    "controllers stopped_service = [True]"
    by (simp_all add: stopped_service_def stop_def in_flight_eval abort_def)
  have f: "fired stopped_service 0"
    by (simp add: fired_def s in_flight_eval)
  have r: "fst (snd (fst ?B)) = 1"
    using s(1,2) in_flight_eval(3)
    by (simp add: executeQuery_begin_def get_or_create_def resolve_sessionId_def session_1_def
          no_options_def Map_get_def createSession_Some Let_def)
  show ?thesis
    using fired_session_not_reused [OF stopped_reachable f, of "''session-1''" "''again''" session_1]
      stopped_reachable f r s(1)
    by (simp add: getSession_def Map_get_def)
qed

section \<open>Invariants of the reachable states\<close>

text \<open>
  The hypotheses of the theorems above on the state, \<open>registry_ok\<close> and \<open>keys_distinct\<close>,
  hold in every state that the service reaches.
\<close>

lemma reachable_registry_ok: "reachable s \<Longrightarrow> registry_ok s"
  by (rule handles_unfired_registry_ok[OF reachable_handles_unfired])

lemma map_fst_Map_set:
  "map fst (Map_set k v m) = (if k \<in> fst ` set m then map fst m else map fst m @ [k])"
  by (induction m) (force split: if_splits)+

lemma distinct_Map_set: "distinct (map fst m) \<Longrightarrow> distinct (map fst (Map_set k v m))"
  by (simp add: map_fst_Map_set)

lemma keys_distinct_update: "keys_distinct (update_session r f s) = keys_distinct s"
  by (simp add: keys_distinct_def update_session_def)

lemma keys_distinct_createSession:
  assumes "keys_distinct s"
  shows "keys_distinct (snd (createSession i wd s))"
  using assms
  by (auto simp: keys_distinct_def createSession_def Date_now_def new_AbortController_def
        new_object_def generateSessionId_def Math_random_toString36_def Let_def
        distinct_Map_set split: option.splits)

lemma keys_distinct_get_or_create:
  assumes "keys_distinct s" and "i \<noteq> []"
  shows "keys_distinct (snd (get_or_create i opts s))"
  using assms
  by (auto simp: keys_distinct_def get_or_create_def createSession_Some distinct_Map_set
        split: option.splits)

lemma keys_distinct_begin:
  assumes "keys_distinct s"
  shows "keys_distinct (snd (executeQuery_begin p opts s))"
proof -
  obtain i s0 where r: "resolve_sessionId opts s = (i, s0)"
    by (cases "resolve_sessionId opts s")
  have s0: "keys_distinct s0" "i \<noteq> []"
    using resolve_sessionId_fields(1,5)[of opts s] r assms by (simp_all add: keys_distinct_def)
  have "keys_distinct (mark_running a s') = keys_distinct s'" for a s'
    by (simp add: keys_distinct_def mark_running_fields)
  then show ?thesis using r keys_distinct_get_or_create[OF s0, of opts]
    by (simp add: executeQuery_begin_def Let_def case_prod_unfold)
qed

lemma reachable_keys_distinct: "reachable s \<Longrightarrow> keys_distinct s"
proof (induction rule: reachable.induct)
  case (reachable_new cfg clk rnd key)
  show ?case by (simp add: keys_distinct_def ClaudeCodeService_new_def)
next
  case (reachable_step s s')
  from reachable_step.hyps(2) reachable_step.IH show ?case
  proof (cases rule: step.cases)
    case (step_create i wd)
    then show ?thesis using reachable_step.IH by (simp add: keys_distinct_createSession)
  next
    case (step_cleanup a)
    then show ?thesis using reachable_step.IH
      by (simp add: keys_distinct_def cleanupSessions_def Date_now_def Let_def fold_Map_delete
            distinct_map_filter)
  next
    case step_stop
    then show ?thesis by (simp add: keys_distinct_def stop_sessions)
  next
    case (step_begin p opts)
    then show ?thesis using reachable_step.IH by (simp add: keys_distinct_begin)
  next
    case (step_message r m)
    then show ?thesis using reachable_step.IH
      by (simp add: push_message_def keys_distinct_update)
  next
    case (step_completed r)
    then show ?thesis using reachable_step.IH
      by (simp add: executeQuery_completed_def keys_distinct_update)
  next
    case (step_failed r)
    then show ?thesis using reachable_step.IH
      by (simp add: executeQuery_failed_def keys_distinct_update)
  qed
qed

text \<open>The default options are the constructor's for the whole life of the service.\<close>

lemma stop_defaultOptions: "defaultOptions (stop s) = defaultOptions s"
proof -
  have "defaultOptions (fold (\<lambda>(sessionId', r) s'. if status (objects s' ! r) = Running
           then abort (abortController (objects s' ! r)) s' else s') m s) = defaultOptions s" for m
    by (induction m arbitrary: s) (auto simp: abort_def)
  then show ?thesis by (simp add: stop_def)
qed

lemma reachable_defaultOptions:
  "reachable s \<Longrightarrow> \<exists>cfg. defaultOptions s = constructor_defaults cfg"
proof (induction rule: reachable.induct)
  case (reachable_new cfg clk rnd key)
  show ?case by (auto simp: ClaudeCodeService_new_def)
next
  case (reachable_step s s')
  from reachable_step.hyps(2) have "defaultOptions s' = defaultOptions s"
    by (cases rule: step.cases)
      (simp_all add: createSession_defaultOptions begin_defaultOptions stop_defaultOptions
        cleanupSessions_def Date_now_def push_message_def executeQuery_completed_def
        executeQuery_failed_def update_session_def)
  then show ?case using reachable_step.IH by simp
qed

section \<open>A failing query among other operations\<close>

text \<open>
  No step of the service removes or changes a message of a transcript: the transcript of an
  allocated session object only grows.
\<close>

lemma createSession_objects:
  "\<exists>x. objects (snd (createSession i wd s)) = objects s @ [x]"
  by (auto simp: createSession_def Date_now_def new_AbortController_def new_object_def
        generateSessionId_def Math_random_toString36_def Let_def split: option.splits)

lemma stop_objects: "objects (stop s) = objects s"
proof -
  have "objects (fold (\<lambda>(sessionId', r) s'. if status (objects s' ! r) = Running
           then abort (abortController (objects s' ! r)) s' else s') m s) = objects s" for m
    by (induction m arbitrary: s) (auto simp: abort_def)
  then show ?thesis by (simp add: stop_def)
qed

lemma update_session_messages:
  assumes "\<And>x. messages (f x) = messages x"
  shows "length (objects (update_session r' f s)) = length (objects s)"
    and "messages (objects (update_session r' f s) ! a) = messages (objects s ! a)"
proof -
  show "length (objects (update_session r' f s)) = length (objects s)"
    by (simp add: update_session_def)
  show "messages (objects (update_session r' f s) ! a) = messages (objects s ! a)"
    using assms by (cases "r' < length (objects s)") (auto simp: update_session_def nth_list_update list_update_beyond)
qed

lemma mark_running_messages:
  "length (objects (mark_running r' s)) = length (objects s)"
  "messages (objects (mark_running r' s) ! a) = messages (objects s ! a)"
  by (simp_all add: mark_running_def Let_def Date_now_def update_session_messages)

lemma get_or_create_objects:
  "objects (snd (get_or_create i opts s)) = objects s
   \<or> (\<exists>x. objects (snd (get_or_create i opts s)) = objects s @ [x])"
  using createSession_objects[of "Some i" "read_field (workingDirectory_o opts)" s]
  by (auto simp: get_or_create_def Let_def case_prod_unfold split: option.splits)

lemma begin_objects_grow:
  assumes "a < length (objects s)"
  shows "a < length (objects (snd (executeQuery_begin p opts s)))
     \<and> messages (objects (snd (executeQuery_begin p opts s)) ! a) = messages (objects s ! a)"
proof -
  obtain i s0 where r: "resolve_sessionId opts s = (i, s0)"
    by (cases "resolve_sessionId opts s")
  have f: "objects s0 = objects s" using resolve_sessionId_fields(2)[of opts s] r by simp
  have "a < length (objects (snd (get_or_create i opts s0)))
     \<and> objects (snd (get_or_create i opts s0)) ! a = objects s ! a"
    using get_or_create_objects[of i opts s0] assms f by (auto simp: nth_append)
  then show ?thesis using r
    by (simp add: executeQuery_begin_def Let_def case_prod_unfold mark_running_messages)
qed

lemma step_messages_grow:
  assumes "step s s'" and "a < length (objects s)"
  shows "a < length (objects s') \<and> (\<exists>ys. messages (objects s' ! a) = messages (objects s ! a) @ ys)"
  using assms(1)
proof (cases rule: step.cases)
  case (step_create i wd)
  then show ?thesis using createSession_objects[of i wd s] assms(2) by (auto simp: nth_append)
next
  case (step_cleanup m)
  then show ?thesis using assms(2) by (simp add: cleanupSessions_def Date_now_def Let_def)
next
  case step_stop
  then show ?thesis using assms(2) by (simp add: stop_objects)
next
  case (step_begin p opts)
  then show ?thesis using begin_objects_grow[OF assms(2)] by simp
next
  case (step_message r m)
  then show ?thesis using assms(2)
    by (cases "a = r") (simp_all add: push_message_def update_session_def)
next
  case (step_completed r)
  then show ?thesis using assms(2)
    by (simp add: executeQuery_completed_def update_session_messages)
next
  case (step_failed r)
  then show ?thesis using assms(2)
    by (simp add: executeQuery_failed_def update_session_messages)
qed

lemma steps_messages_grow:
  assumes "rtranclp step s s'" and "a < length (objects s)"
  shows "a < length (objects s') \<and> (\<exists>ys. messages (objects s' ! a) = messages (objects s ! a) @ ys)"
  using assms
proof (induction rule: rtranclp_induct)
  case base
  then show ?case by simp
next
  case (step t u)
  then obtain ys where t: "a < length (objects t)"
    "messages (objects t ! a) = messages (objects s ! a) @ ys" by auto
  from step_messages_grow[OF step.hyps(2) t(1)] obtain zs
    where "a < length (objects u)" "messages (objects u ! a) = messages (objects t ! a) @ zs"
    by auto
  then show ?case using t(2) by simp
qed

text \<open>
  Claim C2, as the code has it. When the external call throws or rejects with the error \<open>e\<close>
  after it has emitted the messages \<open>msgs\<close>, \<open>executeQuery\<close> throws \<open>e\<close> to its caller and
  returns no list, and the session's status is \<open>error\<close>. With nothing interleaved,
  \<open>getSession\<close> under the call's session id finds the session with the earlier transcript
  followed by \<open>msgs\<close>. With other operations interleaved, each message is appended to the
  session object as it arrives, the error path sets the status to \<open>error\<close> and changes
  neither the transcript nor the registry, and no later step of the service shortens or
  changes the transcript. Whether \<open>getSession\<close> still finds the session is a matter of the
  registry: after \<open>stop\<close>, which is what cancels a query, it finds nothing.
\<close>

theorem executeQuery_rethrows:
  "(registry_ok s \<and> executeQuery_begin p opts s = ((sid, r, args), s1)
      \<and> query args = (msgs, Some e) \<and> executeQuery query p opts s = (res, s')
    \<longrightarrow> res = Inl e
      \<and> getSession sid s' = Some r
      \<and> messages (objects s' ! r)
          = (case getSession sid s of None \<Rightarrow> [] | Some r0 \<Rightarrow> messages (objects s ! r0)) @ msgs
      \<and> status (objects s' ! r) = Error)
   \<and> (a < length (objects t)
    \<longrightarrow> messages (objects (push_message a m t) ! a) = messages (objects t ! a) @ [m]
      \<and> status (objects (executeQuery_failed a t) ! a) = Error
      \<and> messages (objects (executeQuery_failed a t) ! a) = messages (objects t ! a)
      \<and> sessions (executeQuery_failed a t) = sessions t)
   \<and> (a < length (objects t) \<and> rtranclp step t t'
    \<longrightarrow> a < length (objects t')
      \<and> (\<exists>ys. messages (objects t' ! a) = messages (objects t ! a) @ ys))
   \<and> getSession k (stop u) = None"
proof -
  have 1: "res = Inl e
      \<and> getSession sid s' = Some r
      \<and> messages (objects s' ! r)
          = (case getSession sid s of None \<Rightarrow> [] | Some r0 \<Rightarrow> messages (objects s ! r0)) @ msgs
      \<and> status (objects s' ! r) = Error"
    if "registry_ok s" "executeQuery_begin p opts s = ((sid, r, args), s1)"
      "query args = (msgs, Some e)" "executeQuery query p opts s = (res, s')"
    using that by (rule executeQuery_failure_run)
  have 2: "messages (objects (push_message a m t) ! a) = messages (objects t ! a) @ [m]
      \<and> status (objects (executeQuery_failed a t) ! a) = Error
      \<and> messages (objects (executeQuery_failed a t) ! a) = messages (objects t ! a)
      \<and> sessions (executeQuery_failed a t) = sessions t" if "a < length (objects t)"
    using that by (simp add: push_message_def executeQuery_failed_def update_session_def)
  have 3: "a < length (objects t')
      \<and> (\<exists>ys. messages (objects t' ! a) = messages (objects t ! a) @ ys)"
    if "a < length (objects t)" "rtranclp step t t'"
    using steps_messages_grow[OF that(2,1)] .
  have 4: "getSession k (stop u) = None"
    by (simp add: getSession_def Map_get_def stop_def)
  show ?thesis using 1 2 3 4 by blast
qed

text \<open>
  The failing call of the specification, with nothing interleaved: the rejection reaches the
  caller, and \<open>getSession\<close> finds the session in status \<open>error\<close> with the one message. And
  the cancelled query: its session object is in status \<open>error\<close> and holds the one message.
\<close>

lemma in_flight_messages: "messages (objects in_flight_service ! 0) = []"
  by (simp add: in_flight_service_def session_1_def run_defs update_session_def)

lemma emitted_eval:
  "sessions emitted_service = [(''session-1'', 0)]"
  "objects emitted_service ! 0
     = (objects in_flight_service ! 0)\<lparr>messages := [SDKMessage ''assistant'' ''Working'']\<rparr>"
  "length (objects emitted_service) = 1"
  "controllers emitted_service = [False]"
  by (simp_all add: emitted_service_def push_message_def update_session_def in_flight_eval
        in_flight_messages)

lemma stop_emitted_eval:
  "objects (stop emitted_service) = objects emitted_service"
  "controllers (stop emitted_service) = [True]"
  by (simp_all add: stop_def emitted_eval in_flight_eval abort_def)

lemma cancelled_reachable: "reachable cancelled_service"
proof -
  have "reachable emitted_service"
    unfolding emitted_service_def
    by (rule reachable_step[OF in_flight_reachable step_message]) (simp add: in_flight_eval)
  then have "reachable (stop emitted_service)"
    by (rule reachable_step[OF _ step_stop])
  then show ?thesis unfolding cancelled_service_def
    by (rule reachable_step[OF _ step_failed]) (simp add: stop_emitted_eval emitted_eval)
qed

theorem executeQuery_rethrows_witness:
  "registry_ok example_service
   \<and> fst (executeQuery (\<lambda>a. ([SDKMessage ''assistant'' ''Working''], Some ''network down''))
          ''add a README'' session_1 example_service) = Inl ''network down''
   \<and> getSession ''session-1''
        (snd (executeQuery (\<lambda>a. ([SDKMessage ''assistant'' ''Working''], Some ''network down''))
          ''add a README'' session_1 example_service)) = Some 0
   \<and> messages (objects
        (snd (executeQuery (\<lambda>a. ([SDKMessage ''assistant'' ''Working''], Some ''network down''))
          ''add a README'' session_1 example_service)) ! 0) = [SDKMessage ''assistant'' ''Working'']
   \<and> status (objects
        (snd (executeQuery (\<lambda>a. ([SDKMessage ''assistant'' ''Working''], Some ''network down''))
          ''add a README'' session_1 example_service)) ! 0) = Error
   \<and> 0 < length (objects (stop emitted_service))
   \<and> rtranclp step (stop emitted_service) cancelled_service
   \<and> status (objects cancelled_service ! 0) = Error
   \<and> messages (objects cancelled_service ! 0) = [SDKMessage ''assistant'' ''Working'']
   \<and> getSession ''session-1'' (stop emitted_service) = None"
proof -
  let ?B = "executeQuery_begin ''add a README'' session_1 example_service"
  let ?q = "\<lambda>a::query_args. ([SDKMessage ''assistant'' ''Working''], Some ''network down'')"
  let ?E = "executeQuery ?q ''add a README'' session_1 example_service"
  have h2: "?B = ((fst (fst ?B), fst (snd (fst ?B)), snd (snd (fst ?B))), snd ?B)" by simp
  have h3: "?q (snd (snd (fst ?B))) = ([SDKMessage ''assistant'' ''Working''], Some ''network down'')"
    by simp
  have h4: "?E = (fst ?E, snd ?E)" by simp
  have r: "fst (snd (fst ?B)) = 0" "fst (fst ?B) = ''session-1''"
    by (simp_all add: run_defs session_1_def)
  have g: "getSession ''session-1'' example_service = None"
    by (simp add: getSession_def Map_get_def example_service_def ClaudeCodeService_new_def)
  have h5: "0 < length (objects (stop emitted_service))"
    by (simp add: stop_emitted_eval emitted_eval)
  have h6: "rtranclp step (stop emitted_service) cancelled_service"
    unfolding cancelled_service_def using h5 by (intro r_into_rtranclp step_failed)
  have m: "messages (objects (stop emitted_service) ! 0) = [SDKMessage ''assistant'' ''Working'']"
    by (simp add: stop_emitted_eval emitted_eval)
  note t = executeQuery_rethrows [where s = example_service and p = "''add a README''"
      and opts = session_1 and sid = "fst (fst ?B)" and r = "fst (snd (fst ?B))"
      and args = "snd (snd (fst ?B))" and ?s1.0 = "snd ?B" and query = ?q
      and msgs = "[SDKMessage ''assistant'' ''Working'']" and e = "''network down''"
      and res = "fst ?E" and s' = "snd ?E" and a = 0 and t = "stop emitted_service"
      and t' = cancelled_service and k = "''session-1''" and u = emitted_service
      and m = "SDKMessage ''assistant'' ''Done''"]
  have a: "fst ?E = Inl ''network down'' \<and> getSession ''session-1'' (snd ?E) = Some 0
     \<and> messages (objects (snd ?E) ! 0) = [SDKMessage ''assistant'' ''Working'']
     \<and> status (objects (snd ?E) ! 0) = Error"
    using t example_service_registry_ok h2 h3 h4 r g by simp
  have b: "status (objects cancelled_service ! 0) = Error
     \<and> messages (objects cancelled_service ! 0) = [SDKMessage ''assistant'' ''Working'']
     \<and> getSession ''session-1'' (stop emitted_service) = None"
    using t h5 m unfolding cancelled_service_def by simp
  show ?thesis using a b h5 h6 example_service_registry_ok by simp
qed

text \<open>
  The claim as it is written fails for a cancellation. The query in \<open>session-1\<close> emits one
  message and is then cancelled by \<open>stop\<close>: the handle has fired, the status is \<open>error\<close> and
  the message is in the session object, but \<open>getSession\<close> no longer finds the session.
\<close>

theorem executeQuery_cancelled_counterexample:
  "reachable cancelled_service
   \<and> fired cancelled_service 0
   \<and> status (objects cancelled_service ! 0) = Error
   \<and> messages (objects cancelled_service ! 0) = [SDKMessage ''assistant'' ''Working'']
   \<and> getSession ''session-1'' in_flight_service = Some 0
   \<and> getSession ''session-1'' cancelled_service = None"
  using cancelled_reachable
  by (simp add: cancelled_service_def executeQuery_failed_def update_session_def fired_def
        stop_emitted_eval emitted_eval in_flight_eval in_flight_messages getSession_def
        Map_get_def stop_sessions)

end
